theory Spec2Isabelle
  imports Complex_Main
begin

section \<open>Byte strings and character classes\<close>

text \<open>
  A Go string is a sequence of bytes; it is modelled as \<^typ>\<open>string\<close>, a list of 8-bit
  characters. The regular expressions of \<^verbatim>\<open>main.go\<close> use the classes \<^verbatim>\<open>\d\<close>, \<^verbatim>\<open>\s\<close>,
  \<^verbatim>\<open>\S\<close> and \<^verbatim>\<open>.\<close> only. In Go's syntax \<^verbatim>\<open>\d\<close> is \<^verbatim>\<open>[0-9]\<close>, \<^verbatim>\<open>\s\<close> is
  \<^verbatim>\<open>[\t\n\f\r ]\<close>, \<^verbatim>\<open>\S\<close> its complement and \<^verbatim>\<open>.\<close> every character but the line feed.
  The delimiters of all four classes are ASCII, so matching bytes and matching UTF-8
  code points give the same submatches.
\<close>

datatype cclass = Digit | Space | NonSpace | AnyChar

definition is_space :: "char \<Rightarrow> bool" where
  "is_space c = (c \<in> set [CHR 0x09, CHR 0x0A, CHR 0x0C, CHR 0x0D, CHR 0x20])"

definition is_digit :: "char \<Rightarrow> bool" where
  "is_digit c = (c \<in> set ''0123456789'')"

fun in_class :: "cclass \<Rightarrow> char \<Rightarrow> bool" where
  "in_class Digit c = is_digit c"
| "in_class Space c = is_space c"
| "in_class NonSpace c = (\<not> is_space c)"
| "in_class AnyChar c = (c \<noteq> CHR 0x0A)"

section \<open>Regular expressions with leftmost-first submatches\<close>

text \<open>
  Package \<^verbatim>\<open>regexp\<close> returns the match that a backtracking search finds first: the
  leftmost start, the first alternative of \<^verbatim>\<open>|\<close> that leads to an overall match, and
  as many repetitions of a greedy \<^verbatim>\<open>*\<close> or \<^verbatim>\<open>+\<close> as the rest of the expression allows.
  An expression is a sequence of items; \<open>Open g\<close> and \<open>Close g\<close> bracket capture group
  \<open>g\<close> and store the current position in slot \<open>2 * g\<close> and \<open>2 * g + 1\<close>.
\<close>

datatype re =
    Lit char
  | Cls cclass
  | Star cclass
  | Alt "re list" "re list"
  | Open nat
  | Close nat
  | Bol
  | Eol

type_synonym slots = "(nat \<times> nat) list"

text \<open>
  \<open>rmatch r s p c\<close> matches the items \<open>r\<close> against the rest \<open>s\<close> of the text, which
  starts at position \<open>p\<close>, with the slots \<open>c\<close> set so far. It returns the end position and
  the slots of the first successful path.
\<close>

fun rmatch :: "re list \<Rightarrow> string \<Rightarrow> nat \<Rightarrow> slots \<Rightarrow> (nat \<times> slots) option" where
  "rmatch [] s p c = Some (p, c)"
| "rmatch (Lit a # r) [] p c = None"
| "rmatch (Lit a # r) (x # xs) p c = (if x = a then rmatch r xs (Suc p) c else None)"
| "rmatch (Cls k # r) [] p c = None"
| "rmatch (Cls k # r) (x # xs) p c = (if in_class k x then rmatch r xs (Suc p) c else None)"
| "rmatch (Star k # r) [] p c = rmatch r [] p c"
| "rmatch (Star k # r) (x # xs) p c =
     (if in_class k x
      then (case rmatch (Star k # r) xs (Suc p) c of
              Some m \<Rightarrow> Some m
            | None \<Rightarrow> rmatch r (x # xs) p c)
      else rmatch r (x # xs) p c)"
| "rmatch (Alt a b # r) s p c =
     (case rmatch (a @ r) s p c of
        Some m \<Rightarrow> Some m
      | None \<Rightarrow> rmatch (b @ r) s p c)"
| "rmatch (Open g # r) s p c = rmatch r s p ((2 * g, p) # c)"
| "rmatch (Close g # r) s p c = rmatch r s p ((2 * g + 1, p) # c)"
| "rmatch (Bol # r) s p c = (if p = 0 then rmatch r s p c else None)"
| "rmatch (Eol # r) s p c = (if s = [] then rmatch r s p c else None)"

text \<open>The unanchored search tries every start position from the left.\<close>

fun search :: "re list \<Rightarrow> string \<Rightarrow> nat \<Rightarrow> slots option" where
  "search r [] p = map_option snd (rmatch r [] p [])"
| "search r (x # xs) p =
     (case rmatch r (x # xs) p [] of
        Some m \<Rightarrow> Some (snd m)
      | None \<Rightarrow> search r xs (Suc p))"

fun groups :: "re \<Rightarrow> nat" where
  "groups (Open g) = 1"
| "groups (Alt a b) = sum_list (map groups a) + sum_list (map groups b)"
| "groups _ = 0"

definition NumSubexp :: "re list \<Rightarrow> nat" where
  "NumSubexp r = sum_list (map groups r)"

text \<open>A group that took no part in the match gives the empty string, as in Go.\<close>

definition submatch :: "string \<Rightarrow> slots \<Rightarrow> nat \<Rightarrow> string" where
  "submatch s c g =
     (case (map_of c (2 * g), map_of c (2 * g + 1)) of
        (Some i, Some j) \<Rightarrow> take (j - i) (drop i s)
      | _ \<Rightarrow> [])"

text \<open>
  \<^verbatim>\<open>FindStringSubmatch\<close> returns \<^verbatim>\<open>nil\<close> (here \<open>None\<close>) when there is no match, and
  otherwise the whole match followed by one string for each capture group.
\<close>

definition FindStringSubmatch :: "re list \<Rightarrow> string \<Rightarrow> string list option" where
  "FindStringSubmatch r s =
     (case search (Open 0 # r @ [Close 0]) s 0 of
        None \<Rightarrow> None
      | Some c \<Rightarrow> Some (map (submatch s c) [0 ..< Suc (NumSubexp r)]))"

definition MatchString :: "re list \<Rightarrow> string \<Rightarrow> bool" where
  "MatchString r s = (search (Open 0 # r @ [Close 0]) s 0 \<noteq> None)"

subsection \<open>Notation for writing the patterns\<close>

definition lit :: "string \<Rightarrow> re list" where
  "lit s = map Lit s"

definition many :: "cclass \<Rightarrow> re list" where
  "many k = [Star k]"

definition many1 :: "cclass \<Rightarrow> re list" where
  "many1 k = [Cls k, Star k]"

definition exactly :: "nat \<Rightarrow> cclass \<Rightarrow> re list" where
  "exactly n k = replicate n (Cls k)"

definition grp :: "nat \<Rightarrow> re list \<Rightarrow> re list" where
  "grp g r = Open g # r @ [Close g]"

definition alt :: "re list \<Rightarrow> re list \<Rightarrow> re list" where
  "alt a b = [Alt a b]"

text \<open>
  Under the flag \<^verbatim>\<open>(?i)\<close> a letter matches its upper and lower case and every other
  code point of its simple case folding orbit. Of the letters in the four SQL verbs
  only S has one: U+017F (long s), the bytes C5 BF in UTF-8.
\<close>

definition to_lower :: "char \<Rightarrow> char" where
  "to_lower c = char_of (of_char c + (32 :: nat))"

definition fold_case :: "char \<Rightarrow> re list" where
  "fold_case c =
     (if c = CHR ''S''
      then alt (lit ''S'') (alt (lit ''s'') (lit [CHR 0xC5, CHR 0xBF]))
      else alt (lit [c]) (lit [to_lower c]))"

definition lit_ci :: "string \<Rightarrow> re list" where
  "lit_ci s = concat (map fold_case s)"

section \<open>The patterns of main.go\<close>

text \<open>\<^verbatim>\<open>^# Time: \d{4}-\d{2}-\d{2}.*$\<close>\<close>

definition queryStartPattern :: "re list" where
  "queryStartPattern =
     [Bol] @ lit ''# Time: '' @ exactly 4 Digit @ lit ''-'' @ exactly 2 Digit @ lit ''-'' @
     exactly 2 Digit @ many AnyChar @ [Eol]"

text \<open>\<^verbatim>\<open># Query_time:\s*(\d+\.\d+|\d+)\s*Lock_time:\s*(\d+\.\d+|\d+)\s*Rows_sent:\s*(\d+)\s*Rows_examined:\s*(\d+)\<close>\<close>

definition queryTimePattern :: "re list" where
  "queryTimePattern =
     lit ''# Query_time:'' @ many Space @
     grp 1 (alt (many1 Digit @ lit ''.'' @ many1 Digit) (many1 Digit)) @ many Space @
     lit ''Lock_time:'' @ many Space @
     grp 2 (alt (many1 Digit @ lit ''.'' @ many1 Digit) (many1 Digit)) @ many Space @
     lit ''Rows_sent:'' @ many Space @ grp 3 (many1 Digit) @ many Space @
     lit ''Rows_examined:'' @ many Space @ grp 4 (many1 Digit)"

text \<open>\<^verbatim>\<open># User@Host:\s*(\S+)\s*\[\S+\]\s*@\s*(\S+)\<close>\<close>

definition userHostPattern :: "re list" where
  "userHostPattern =
     lit ''# User@Host:'' @ many Space @ grp 1 (many1 NonSpace) @ many Space @
     lit ''['' @ many1 NonSpace @ lit '']'' @ many Space @ lit ''@'' @ many Space @
     grp 2 (many1 NonSpace)"

text \<open>\<^verbatim>\<open># Schema:\s*(\S+)\<close>\<close>

definition databasePattern :: "re list" where
  "databasePattern = lit ''# Schema:'' @ many Space @ grp 1 (many1 NonSpace)"

text \<open>\<^verbatim>\<open>(?i)^(SELECT|UPDATE|DELETE|INSERT)\s+.*;$\<close>\<close>

definition sqlQueryEndPattern :: "re list" where
  "sqlQueryEndPattern =
     [Bol] @
     grp 1 (alt (lit_ci ''SELECT'')
             (alt (lit_ci ''UPDATE'') (alt (lit_ci ''DELETE'') (lit_ci ''INSERT'')))) @
     many1 Space @ many AnyChar @ lit '';'' @ [Eol]"

section \<open>Numbers: strconv and the verbs of fmt\<close>

text \<open>
  A \<^verbatim>\<open>float64\<close> is a finite value (the rational number it denotes), an infinity or
  NaN. The sign of zero is not represented: the program only compares and prints
  values, and the values it prints are parsed from unsigned digits.
\<close>

datatype float64 = Finite rat | PosInf | NegInf | NaN

text \<open>The comparisons of IEEE 754: every comparison with NaN is false.\<close>

fun fge :: "float64 \<Rightarrow> float64 \<Rightarrow> bool" where
  "fge NaN y = False"
| "fge x NaN = False"
| "fge PosInf y = True"
| "fge x NegInf = True"
| "fge NegInf y = False"
| "fge x PosInf = False"
| "fge (Finite a) (Finite b) = (b \<le> a)"

fun feq :: "float64 \<Rightarrow> float64 \<Rightarrow> bool" where
  "feq (Finite a) (Finite b) = (a = b)"
| "feq PosInf PosInf = True"
| "feq NegInf NegInf = True"
| "feq x y = False"

fun flt :: "float64 \<Rightarrow> float64 \<Rightarrow> bool" where
  "flt NaN y = False"
| "flt x NaN = False"
| "flt x y = (\<not> fge x y)"

definition digit_val :: "char \<Rightarrow> int" where
  "digit_val c = of_char c - 48"

definition decimal :: "string \<Rightarrow> int" where
  "decimal s = foldl (\<lambda>a c. 10 * a + digit_val c) 0 s"

function bitlen :: "int \<Rightarrow> int" where
  "bitlen n = (if n \<le> 0 then 0 else 1 + bitlen (n div 2))"
  by pat_completeness auto
termination
  by (relation "measure nat") auto

declare bitlen.simps [simp del]

text \<open>\<open>floor_log2 n d\<close> is the integer part of the binary logarithm of \<open>n / d\<close>.\<close>

definition floor_log2 :: "int \<Rightarrow> int \<Rightarrow> int" where
  "floor_log2 n d =
     (let k = bitlen n - bitlen d
      in if (if 0 \<le> k then d * 2 ^ nat k \<le> n else d \<le> n * 2 ^ nat (- k)) then k else k - 1)"

text \<open>\<open>round_half_even a b\<close> is the integer nearest to \<open>a / b\<close>, ties to the even one.\<close>

definition round_half_even :: "int \<Rightarrow> int \<Rightarrow> int" where
  "round_half_even a b =
     (let q = a div b; r = a mod b
      in if 2 * r < b then q else if b < 2 * r then q + 1 else if even q then q else q + 1)"

text \<open>
  The \<^verbatim>\<open>float64\<close> nearest to \<open>n / d\<close> (for \<open>n \<ge> 0\<close> and \<open>d > 0\<close>), ties to even:
  53 significant bits, the unit in the last place no smaller than \<open>2\<close> to the \<open>- 1074\<close>,
  and infinity from \<open>2\<close> to the \<open>1024\<close> on.
\<close>

definition nearest_float64 :: "int \<Rightarrow> int \<Rightarrow> float64" where
  "nearest_float64 n d =
     (if n = 0 then Finite 0
      else
        let u = max (floor_log2 n d) (- 1022) - 52;
            m = (if 0 \<le> u then round_half_even n (d * 2 ^ nat u)
                 else round_half_even (n * 2 ^ nat (- u)) d)
        in if 0 \<le> u
           then (if (2::int) ^ 1024 \<le> m * 2 ^ nat u then PosInf
                 else Finite (of_int (m * 2 ^ nat u)))
           else Finite (of_int m / of_int (2 ^ nat (- u))))"

text \<open>
  \<^verbatim>\<open>strconv.ParseFloat(s, 64)\<close> on the strings that \<^verbatim>\<open>(\d+\.\d+|\d+)\<close> can capture:
  digits, or digits, a point and digits. The result is the value and whether the error
  is not \<^verbatim>\<open>nil\<close>; a value out of range is an infinity with an error. Every other string
  is given the result of a syntax error, \<open>0\<close> with an error; the other notations that
  strconv accepts (signs, exponents, hexadecimal, infinities, NaN) are not modelled, and
  no submatch of the timing pattern is written in them (\<open>timing_submatches\<close> below).
\<close>

definition ParseFloat :: "string \<Rightarrow> float64 \<times> bool" where
  "ParseFloat s =
     (let ip = takeWhile is_digit s; rest = dropWhile is_digit s
      in if ip = [] then (Finite 0, True)
         else case rest of
                [] \<Rightarrow> (nearest_float64 (decimal ip) 1, nearest_float64 (decimal ip) 1 = PosInf)
              | c # fp \<Rightarrow>
                  if c = CHR ''.'' \<and> fp \<noteq> [] \<and> list_all is_digit fp
                  then (nearest_float64 (decimal (ip @ fp)) (10 ^ length fp),
                        nearest_float64 (decimal (ip @ fp)) (10 ^ length fp) = PosInf)
                  else (Finite 0, True))"

text \<open>
  \<^verbatim>\<open>strconv.Atoi\<close> with a 64-bit \<^verbatim>\<open>int\<close>: an optional sign and decimal digits; a value
  out of range is the nearest bound with an error, a malformed string is \<open>0\<close> with an
  error.
\<close>

definition Atoi :: "string \<Rightarrow> int \<times> bool" where
  "Atoi s =
     (let neg = (s \<noteq> [] \<and> hd s = CHR ''-'');
          ds = (if s \<noteq> [] \<and> (hd s = CHR ''-'' \<or> hd s = CHR ''+'') then tl s else s)
      in if ds \<noteq> [] \<and> list_all is_digit ds
         then (if neg
               then (if 2 ^ 63 < decimal ds then (- (2 ^ 63), True) else (- decimal ds, False))
               else (if 2 ^ 63 - 1 < decimal ds then (2 ^ 63 - 1, True) else (decimal ds, False)))
         else (0, True))"

definition digit_char :: "int \<Rightarrow> char" where
  "digit_char d = ''0123456789'' ! nat d"

function show_digits :: "int \<Rightarrow> string" where
  "show_digits n =
     (if n < 10 then [digit_char n] else show_digits (n div 10) @ [digit_char (n mod 10)])"
  by pat_completeness auto
termination
  by (relation "measure nat") auto

declare show_digits.simps [simp del]

text \<open>The verb \<^verbatim>\<open>%d\<close>.\<close>

definition fmt_d :: "int \<Rightarrow> string" where
  "fmt_d i = (if i < 0 then CHR ''-'' # show_digits (- i) else show_digits i)"

text \<open>
  The verb \<^verbatim>\<open>%.2f\<close>: the exact value rounded to two decimals, ties to even; the
  infinities print as \<^verbatim>\<open>+Inf\<close> and \<^verbatim>\<open>-Inf\<close>.
\<close>

fun fmt_f2 :: "float64 \<Rightarrow> string" where
  "fmt_f2 NaN = ''NaN''"
| "fmt_f2 PosInf = ''+Inf''"
| "fmt_f2 NegInf = ''-Inf''"
| "fmt_f2 (Finite r) =
     (let (n, d) = quotient_of \<bar>r\<bar>;
          h = round_half_even (n * 100) d
      in (if r < 0 then ''-'' else '''') @ show_digits (h div 100) @ ''.'' @
         [digit_char (h mod 100 div 10), digit_char (h mod 10)])"

section \<open>Configuration and outbound requests\<close>

text \<open>The package-level variables that \<^verbatim>\<open>main\<close> fills from the command line.\<close>

record config =
  webhookURL :: string
  slowLogFile :: string
  slowQueryThreshold :: float64
  isTest :: bool
  readHistory :: bool

text \<open>
  The only effect of the program outside its process is the HTTP request that resty
  sends. A run is observed as the list of requests it issued, in order; the messages
  printed on the console are not modelled.
\<close>

record request =
  http_method :: string
  url :: string
  headers :: "(string \<times> string) list"
  body :: string

definition backslash :: char where
  "backslash = CHR 0x5C"

definition tab :: char where
  "tab = CHR 0x09"

definition newline :: char where
  "newline = CHR 0x0A"

text \<open>
  The raw string literal of \<^verbatim>\<open>sendWebhookNotification\<close>, with its line breaks and its
  indentation by tabs, and the content in place of \<^verbatim>\<open>%s\<close>.
\<close>

definition payload :: "string \<Rightarrow> string" where
  "payload content =
     ''{'' @ [newline, tab, tab] @
     ''\"msgtype\": \"markdown\",'' @ [newline, tab, tab] @
     ''\"markdown\": {'' @ [newline, tab, tab, tab] @
     ''\"content\": \"'' @ content @ ''\"'' @ [newline, tab, tab] @
     ''}'' @ [newline, tab] @
     ''}''"

text \<open>
  One call of \<^verbatim>\<open>Post\<close>, whatever it returns: the error is printed and nothing is
  retried.
\<close>

definition sendWebhookNotification :: "config \<Rightarrow> string \<Rightarrow> request list" where
  "sendWebhookNotification cfg content =
     [\<lparr>http_method = ''POST'', url = webhookURL cfg,
       headers = [(''Content-Type'', ''application/json'')],
       body = payload content\<rparr>]"

section \<open>processSlowQuery\<close>

text \<open>The local variables of \<^verbatim>\<open>processSlowQuery\<close>.\<close>

record slow_query =
  queryTime :: float64
  lockTime :: float64
  rowsSent :: int
  rowsExamined :: int
  database :: string
  user :: string
  host :: string
  sqlQuery :: string

text \<open>Their zero values, from the \<^verbatim>\<open>var\<close> declarations.\<close>

definition zero_values :: slow_query where
  "zero_values =
     \<lparr>queryTime = Finite 0, lockTime = Finite 0, rowsSent = 0, rowsExamined = 0,
      database = [], user = [], host = [], sqlQuery = []\<rparr>"

text \<open>Indexing a slice out of range panics.\<close>

datatype panic = IndexOutOfRange

definition index :: "string list \<Rightarrow> nat \<Rightarrow> panic + string" where
  "index ms i = (if i < length ms then Inr (ms ! i) else Inl IndexOutOfRange)"

definition and_then :: "panic + 'a \<Rightarrow> ('a \<Rightarrow> panic + 'b) \<Rightarrow> panic + 'b" where
  "and_then x f = (case x of Inl e \<Rightarrow> Inl e | Inr v \<Rightarrow> f v)"

text \<open>The four \<^verbatim>\<open>if\<close> statements of the loop body, in the order of the source.\<close>

definition scan_queryTime :: "slow_query \<Rightarrow> string \<Rightarrow> panic + slow_query" where
  "scan_queryTime q line =
     (case FindStringSubmatch queryTimePattern line of
        None \<Rightarrow> Inr q
      | Some matches \<Rightarrow>
          and_then (index matches 1) (\<lambda>m1.
          and_then (index matches 2) (\<lambda>m2.
          and_then (index matches 3) (\<lambda>m3.
          and_then (index matches 4) (\<lambda>m4.
            Inr (q\<lparr>queryTime := fst (ParseFloat m1), lockTime := fst (ParseFloat m2),
                   rowsSent := fst (Atoi m3), rowsExamined := fst (Atoi m4)\<rparr>))))))"

definition scan_userHost :: "slow_query \<Rightarrow> string \<Rightarrow> panic + slow_query" where
  "scan_userHost q line =
     (case FindStringSubmatch userHostPattern line of
        None \<Rightarrow> Inr q
      | Some matches \<Rightarrow>
          and_then (index matches 1) (\<lambda>m1.
          and_then (index matches 2) (\<lambda>m2.
            Inr (q\<lparr>user := m1, host := m2\<rparr>))))"

definition scan_database :: "slow_query \<Rightarrow> string \<Rightarrow> panic + slow_query" where
  "scan_database q line =
     (case FindStringSubmatch databasePattern line of
        None \<Rightarrow> Inr q
      | Some matches \<Rightarrow> and_then (index matches 1) (\<lambda>m1. Inr (q\<lparr>database := m1\<rparr>)))"

definition scan_sqlQuery :: "slow_query \<Rightarrow> string \<Rightarrow> panic + slow_query" where
  "scan_sqlQuery q line =
     (case FindStringSubmatch sqlQueryEndPattern line of
        None \<Rightarrow> Inr q
      | Some matches \<Rightarrow> Inr (q\<lparr>sqlQuery := line\<rparr>))"

definition scan_line :: "slow_query \<Rightarrow> string \<Rightarrow> panic + slow_query" where
  "scan_line q line =
     and_then (scan_queryTime q line) (\<lambda>q1.
     and_then (scan_userHost q1 line) (\<lambda>q2.
     and_then (scan_database q2 line) (\<lambda>q3.
       scan_sqlQuery q3 line)))"

text \<open>The loop \<^verbatim>\<open>for _, line := range logLines\<close>.\<close>

fun scan_lines :: "slow_query \<Rightarrow> string list \<Rightarrow> panic + slow_query" where
  "scan_lines q [] = Inr q"
| "scan_lines q (line # rest) = and_then (scan_line q line) (\<lambda>q'. scan_lines q' rest)"

text \<open>Lines 52 to 78: the declarations and the loop.\<close>

definition processSlowQuery_parse :: "string list \<Rightarrow> panic + slow_query" where
  "processSlowQuery_parse logLines = scan_lines zero_values logLines"

text \<open>
  The format string of the notification. Its literals are raw strings, so \<^verbatim>\<open>\"\<close> and
  \<^verbatim>\<open>\n\<close> in them are a backslash followed by a quote or by the letter n. The Chinese
  labels are given by their UTF-8 bytes.
\<close>

definition esc_quote :: string where
  "esc_quote = [backslash, CHR 0x22]"

definition esc_n :: string where
  "esc_n = [backslash, CHR ''n'']"

definition font :: "string \<Rightarrow> string \<Rightarrow> string" where
  "font color text = ''<font color='' @ esc_quote @ color @ esc_quote @ ''>'' @ text @ ''</font>''"

definition zh_slow_query_warning :: string where
  "zh_slow_query_warning =
     [CHR 0xE6, CHR 0x85, CHR 0xA2, CHR 0xE6, CHR 0x9F, CHR 0xA5, CHR 0xE8, CHR 0xAF, CHR 0xA2,
      CHR 0xE8, CHR 0xAD, CHR 0xA6, CHR 0xE5, CHR 0x91, CHR 0x8A]"

definition zh_query_time :: string where
  "zh_query_time =
     [CHR 0xE6, CHR 0x9F, CHR 0xA5, CHR 0xE8, CHR 0xAF, CHR 0xA2, CHR 0xE6, CHR 0x97, CHR 0xB6,
      CHR 0xE9, CHR 0x97, CHR 0xB4]"

definition zh_seconds :: string where
  "zh_seconds = [CHR 0xE7, CHR 0xA7, CHR 0x92]"

definition zh_lock_time :: string where
  "zh_lock_time =
     [CHR 0xE9, CHR 0x94, CHR 0x81, CHR 0xE5, CHR 0xAE, CHR 0x9A, CHR 0xE6, CHR 0x97, CHR 0xB6,
      CHR 0xE9, CHR 0x97, CHR 0xB4]"

definition zh_database :: string where
  "zh_database =
     [CHR 0xE6, CHR 0x95, CHR 0xB0, CHR 0xE6, CHR 0x8D, CHR 0xAE, CHR 0xE5, CHR 0xBA, CHR 0x93]"

definition zh_host :: string where
  "zh_host = [CHR 0xE4, CHR 0xB8, CHR 0xBB, CHR 0xE6, CHR 0x9C, CHR 0xBA]"

definition zh_user :: string where
  "zh_user = [CHR 0xE7, CHR 0x94, CHR 0xA8, CHR 0xE6, CHR 0x88, CHR 0xB7]"

definition zh_rows_sent :: string where
  "zh_rows_sent =
     [CHR 0xE5, CHR 0x8F, CHR 0x91, CHR 0xE9, CHR 0x80, CHR 0x81, CHR 0xE7, CHR 0x9A, CHR 0x84,
      CHR 0xE8, CHR 0xA1, CHR 0x8C, CHR 0xE6, CHR 0x95, CHR 0xB0]"

definition zh_rows_examined :: string where
  "zh_rows_examined =
     [CHR 0xE6, CHR 0x89, CHR 0xAB, CHR 0xE6, CHR 0x8F, CHR 0x8F, CHR 0xE7, CHR 0x9A, CHR 0x84,
      CHR 0xE8, CHR 0xA1, CHR 0x8C, CHR 0xE6, CHR 0x95, CHR 0xB0]"

definition zh_query :: string where
  "zh_query = [CHR 0xE6, CHR 0x9F, CHR 0xA5, CHR 0xE8, CHR 0xAF, CHR 0xA2]"

definition notificationContent :: "slow_query \<Rightarrow> string" where
  "notificationContent q =
     font ''warning'' (''**'' @ zh_slow_query_warning @ ''**'') @ esc_n @
     ''> **'' @ zh_query_time @ '':** '' @
       font ''warning'' (fmt_f2 (queryTime q) @ '' '' @ zh_seconds) @ esc_n @
     ''> **'' @ zh_lock_time @ '':** '' @
       font ''comment'' (fmt_f2 (lockTime q) @ '' '' @ zh_seconds) @ esc_n @
     ''> **'' @ zh_database @ '':** '' @ font ''comment'' (database q) @ esc_n @
     ''> **'' @ zh_host @ '':** '' @ font ''comment'' (host q) @ esc_n @
     ''> **'' @ zh_user @ '':** '' @ font ''comment'' (user q) @ esc_n @
     ''> **'' @ zh_rows_sent @ '':** '' @ font ''comment'' (fmt_d (rowsSent q)) @ esc_n @
     ''> **'' @ zh_rows_examined @ '':** '' @ font ''comment'' (fmt_d (rowsExamined q)) @ esc_n @
     ''> **SQL '' @ zh_query @ '':** '' @ font ''comment'' (sqlQuery q) @ esc_n"

text \<open>Lines 80 to 95: the comparison with the threshold and the notification.\<close>

definition notify :: "config \<Rightarrow> slow_query \<Rightarrow> request list" where
  "notify cfg q =
     (if fge (queryTime q) (slowQueryThreshold cfg)
      then sendWebhookNotification cfg (notificationContent q)
      else [])"

definition processSlowQuery :: "config \<Rightarrow> string list \<Rightarrow> panic + request list" where
  "processSlowQuery cfg logLines =
     and_then (processSlowQuery_parse logLines) (\<lambda>q. Inr (notify cfg q))"

section \<open>tailSlowLog\<close>

text \<open>
  One iteration of \<^verbatim>\<open>for line := range t.Lines\<close>: the new value of \<^verbatim>\<open>logLines\<close> and
  the arguments of the calls of \<^verbatim>\<open>processSlowQuery\<close> that the iteration makes, in order.
  A \<^verbatim>\<open>nil\<close> slice and an empty one are both \<open>[]\<close>.
\<close>

definition tail_step :: "string list \<Rightarrow> string \<Rightarrow> string list \<times> string list list" where
  "tail_step logLines text =
     (if text = [] then (logLines, [])
      else
        let (l1, c1) =
              (if MatchString queryStartPattern text
               then ([text], if 0 < length logLines then [logLines] else [])
               else (logLines @ [text], []));
            (l2, c2) =
              (if MatchString sqlQueryEndPattern text then ([], [l1]) else (l1, []));
            c3 = (if 0 < length l2 then [l2] else [])
        in (l2, c1 @ c2 @ c3))"

text \<open>The loop over the lines that the channel has delivered.\<close>

fun tail_loop :: "string list \<Rightarrow> string list \<Rightarrow> string list \<times> string list list" where
  "tail_loop logLines [] = (logLines, [])"
| "tail_loop logLines (text # rest) =
     (let (l, cs) = tail_step logLines text;
          (l', cs') = tail_loop l rest
      in (l', cs @ cs'))"

text \<open>\<^verbatim>\<open>var logLines []string\<close>: every run of \<^verbatim>\<open>tailSlowLog\<close> starts with no lines.\<close>

definition tailSlowLog_calls :: "string list \<Rightarrow> string list list" where
  "tailSlowLog_calls lines = snd (tail_loop [] lines)"

text \<open>
  The calls run in order; a panic ends the goroutine, and with it the process, after
  the requests already sent.
\<close>

fun run_calls :: "config \<Rightarrow> string list list \<Rightarrow> request list \<times> panic option" where
  "run_calls cfg [] = ([], None)"
| "run_calls cfg (c # cs) =
     (case processSlowQuery cfg c of
        Inl e \<Rightarrow> ([], Some e)
      | Inr rs \<Rightarrow> (let (rs', e) = run_calls cfg cs in (rs @ rs', e)))"

text \<open>
  \<^verbatim>\<open>tail.TailFile\<close> either fails, and \<^verbatim>\<open>tailSlowLog\<close> asks for a restart and returns, or
  gives the channel of lines, here the list of the lines delivered so far.
\<close>

record tail_result =
  sent :: "request list"
  panicked :: "panic option"
  restart :: bool

definition tailSlowLog :: "config \<Rightarrow> string list option \<Rightarrow> tail_result" where
  "tailSlowLog cfg tailed =
     (case tailed of
        None \<Rightarrow> \<lparr>sent = [], panicked = None, restart = True\<rparr>
      | Some lines \<Rightarrow>
          (let (rs, e) = run_calls cfg (tailSlowLog_calls lines)
           in \<lparr>sent = rs, panicked = e, restart = False\<rparr>))"

subsection \<open>The loop as a step relation\<close>

text \<open>
  The same loop, one rule for each branch of the source. Every relation holds between
  the value of \<^verbatim>\<open>logLines\<close> before a statement, the line read, the value of
  \<^verbatim>\<open>logLines\<close> after it and the arguments of the calls of \<^verbatim>\<open>processSlowQuery\<close> that
  the statement makes.

  \<^verbatim>\<open>if queryStartPattern.MatchString(line.Text) { if len(logLines) > 0 { ... } ... } else { ... }\<close>:
\<close>

inductive start_marker ::
  "string list \<Rightarrow> string \<Rightarrow> string list \<Rightarrow> string list list \<Rightarrow> bool" where
  start_process:
    "MatchString queryStartPattern text \<Longrightarrow> 0 < length logLines \<Longrightarrow>
       start_marker logLines text [text] [logLines]"
| start_first:
    "MatchString queryStartPattern text \<Longrightarrow> \<not> 0 < length logLines \<Longrightarrow>
       start_marker logLines text [text] []"
| start_append:
    "\<not> MatchString queryStartPattern text \<Longrightarrow>
       start_marker logLines text (logLines @ [text]) []"

text \<open>\<^verbatim>\<open>if sqlQueryEndPattern.MatchString(line.Text) { processSlowQuery(logLines); logLines = nil }\<close>:\<close>

inductive end_marker ::
  "string list \<Rightarrow> string \<Rightarrow> string list \<Rightarrow> string list list \<Rightarrow> bool" where
  end_process:
    "MatchString sqlQueryEndPattern text \<Longrightarrow> end_marker logLines text [] [logLines]"
| end_skip:
    "\<not> MatchString sqlQueryEndPattern text \<Longrightarrow> end_marker logLines text logLines []"

text \<open>\<^verbatim>\<open>if len(logLines) > 0 { processSlowQuery(logLines) }\<close>, the last statement of the loop body:\<close>

inductive flush :: "string list \<Rightarrow> string list list \<Rightarrow> bool" where
  flush_process: "0 < length logLines \<Longrightarrow> flush logLines [logLines]"
| flush_skip: "\<not> 0 < length logLines \<Longrightarrow> flush logLines []"

text \<open>The loop body: \<^verbatim>\<open>continue\<close> on an empty line, the three statements otherwise.\<close>

inductive iteration ::
  "string list \<Rightarrow> string \<Rightarrow> string list \<Rightarrow> string list list \<Rightarrow> bool" where
  iteration_blank: "text = [] \<Longrightarrow> iteration logLines text logLines []"
| iteration_line:
    "text \<noteq> [] \<Longrightarrow> start_marker logLines text l1 c1 \<Longrightarrow> end_marker l1 text l2 c2 \<Longrightarrow>
     flush l2 c3 \<Longrightarrow> iteration logLines text l2 (c1 @ c2 @ c3)"

text \<open>\<^verbatim>\<open>for line := range t.Lines\<close> over the lines delivered.\<close>

inductive range_Lines ::
  "string list \<Rightarrow> string list \<Rightarrow> string list \<Rightarrow> string list list \<Rightarrow> bool" where
  range_done: "range_Lines logLines [] logLines []"
| range_next:
    "iteration logLines text l cs \<Longrightarrow> range_Lines l rest l' cs' \<Longrightarrow>
       range_Lines logLines (text # rest) l' (cs @ cs')"

text \<open>
  A run of \<^verbatim>\<open>tailSlowLog\<close> on the lines delivered: \<^verbatim>\<open>var logLines []string\<close> stands
  in the function, before the loop, so the loop of every run starts from \<^verbatim>\<open>nil\<close>;
  what is left in \<^verbatim>\<open>logLines\<close> at the end is dropped with the frame.
\<close>

inductive tailSlowLog_run :: "string list \<Rightarrow> string list list \<Rightarrow> bool" where
  run_loop: "range_Lines [] lines l cs \<Longrightarrow> tailSlowLog_run lines cs"

code_pred start_marker .

code_pred end_marker .

code_pred flush .

code_pred iteration .

code_pred range_Lines .

code_pred tailSlowLog_run .

section \<open>main\<close>

text \<open>
  What \<^verbatim>\<open>main\<close> of \<^verbatim>\<open>main.go\<close> does after parsing the flags: without a webhook URL it
  prints the usage and returns; otherwise it prints the configuration and starts
  \<^verbatim>\<open>tailSlowLog\<close> again and again. It sends no request of its own, and it never reads
  \<^verbatim>\<open>isTest\<close>.
\<close>

datatype main_path = PrintUsageAndReturn | ReturnAfterTest | SuperviseTailSlowLog

definition main :: "config \<Rightarrow> request list \<times> main_path" where
  "main cfg =
     (if webhookURL cfg = [] then ([], PrintUsageAndReturn)
      else ([], SuperviseTailSlowLog))"

subsection \<open>The other version of the program\<close>

text \<open>
  The repository also holds another version of the program, whose
  \<^verbatim>\<open>sendWebhookNotification\<close> is the same and whose \<^verbatim>\<open>main\<close> reads \<^verbatim>\<open>isTest\<close>: its
  \<^verbatim>\<open>sendTestWebhook\<close> sends one notification with constant values, and \<^verbatim>\<open>main\<close>
  returns after it.
\<close>

definition zh_test_example :: string where
  "zh_test_example =
     [CHR 0xE6, CHR 0xB5, CHR 0x8B, CHR 0xE8, CHR 0xAF, CHR 0x95, CHR 0xE7, CHR 0xA4, CHR 0xBA,
      CHR 0xE4, CHR 0xBE, CHR 0x8B]"

definition testMessage :: string where
  "testMessage =
     font ''warning'' (''**'' @ zh_slow_query_warning @ zh_test_example @ ''**'') @ esc_n @
     ''> **'' @ zh_query_time @ '':** '' @
       font ''warning'' (fmt_f2 (Finite (1 / 2)) @ '' '' @ zh_seconds) @ esc_n @
     ''> **'' @ zh_lock_time @ '':** '' @
       font ''comment'' (fmt_f2 (Finite (1 / 2)) @ '' '' @ zh_seconds) @ esc_n @
     ''> **'' @ zh_database @ '':** '' @ font ''comment'' ''database'' @ esc_n @
     ''> **'' @ zh_user @ '':** '' @ font ''comment'' ''user'' @ esc_n @
     ''> **SQL'' @ zh_query @ '':** '' @ font ''comment'' ''select * from table'' @ esc_n @
     ''> **'' @ zh_rows_sent @ '':** '' @ font ''comment'' (fmt_d 1) @ esc_n @
     ''> **'' @ zh_rows_examined @ '':** '' @ font ''comment'' (fmt_d 10000) @ esc_n"

definition sendTestWebhook :: "config \<Rightarrow> request list" where
  "sendTestWebhook cfg = sendWebhookNotification cfg testMessage"

definition main_other_version :: "config \<Rightarrow> request list \<times> main_path" where
  "main_other_version cfg =
     (if webhookURL cfg = [] then ([], PrintUsageAndReturn)
      else if isTest cfg then (sendTestWebhook cfg, ReturnAfterTest)
      else ([], SuperviseTailSlowLog))"

section \<open>The notification body as JSON text\<close>

text \<open>
  The interface of the webhook is stated in terms of JSON. The following reader follows
  the JSON grammar, not the program: it accepts a text that is, between optional white
  space, the object with the member \<^verbatim>\<open>msgtype\<close> with the value \<^verbatim>\<open>markdown\<close> and the member
  \<^verbatim>\<open>markdown\<close> whose value is an object with the single member \<^verbatim>\<open>content\<close>, and returns
  the characters between the quotes of that member's string.
\<close>

definition json_ws :: "char \<Rightarrow> bool" where
  "json_ws c = (c \<in> set [CHR 0x20, CHR 0x09, CHR 0x0A, CHR 0x0D])"

definition json_escape :: "char \<Rightarrow> bool" where
  "json_escape c = (c \<in> set [CHR 0x22, CHR 0x5C, CHR ''/'', CHR ''b'', CHR ''f'', CHR ''n'', CHR ''r'', CHR ''t''])"

definition is_hex :: "char \<Rightarrow> bool" where
  "is_hex c = (c \<in> set ''0123456789abcdefABCDEF'')"

definition json_plain :: "char \<Rightarrow> bool" where
  "json_plain c = (c \<noteq> CHR 0x22 \<and> c \<noteq> CHR 0x5C \<and> (32 :: nat) \<le> of_char c)"

text \<open>
  \<open>json_string_body s\<close>: the characters of \<open>s\<close> may stand between the quotes of a JSON
  string: no bare quote, backslash or control character, and every backslash starts an
  escape.
\<close>

fun json_string_body :: "string \<Rightarrow> bool" where
  "json_string_body [] = True"
| "json_string_body [c] = json_plain c"
| "json_string_body (c # e # r) =
     (if c = CHR 0x5C
      then (if json_escape e then json_string_body r
            else e = CHR ''u'' \<and> 4 \<le> length r \<and> list_all is_hex (take 4 r) \<and>
                 json_string_body (drop 4 r))
      else json_plain c \<and> json_string_body (e # r))"

text \<open>
  \<open>json_string s\<close> reads a string after its opening quote: the characters up to the
  closing quote, and the rest of the text.
\<close>

fun json_string :: "string \<Rightarrow> (string \<times> string) option" where
  "json_string [] = None"
| "json_string [c] = (if c = CHR 0x22 then Some ([], []) else None)"
| "json_string (c # e # r) =
     (if c = CHR 0x22 then Some ([], e # r)
      else if c = CHR 0x5C
      then (if json_escape e
            then map_option (\<lambda>(b, t). (c # e # b, t)) (json_string r)
            else if e = CHR ''u'' \<and> 4 \<le> length r \<and> list_all is_hex (take 4 r)
            then map_option (\<lambda>(b, t). (c # e # take 4 r @ b, t)) (json_string (drop 4 r))
            else None)
      else if json_plain c
      then map_option (\<lambda>(b, t). (c # b, t)) (json_string (e # r))
      else None)"

definition skip_ws :: "string \<Rightarrow> string" where
  "skip_ws s = dropWhile json_ws s"

text \<open>\<open>expect w s\<close>: after white space the text \<open>s\<close> goes on with \<open>w\<close>; what follows it.\<close>

definition expect :: "string \<Rightarrow> string \<Rightarrow> string option" where
  "expect w s =
     (let t = skip_ws s
      in if take (length w) t = w then Some (drop (length w) t) else None)"

definition json_content :: "string \<Rightarrow> string option" where
  "json_content s =
     Option.bind (expect ''{'' s) (\<lambda>s.
     Option.bind (expect ''\"msgtype\"'' s) (\<lambda>s.
     Option.bind (expect '':'' s) (\<lambda>s.
     Option.bind (expect ''\"markdown\"'' s) (\<lambda>s.
     Option.bind (expect '','' s) (\<lambda>s.
     Option.bind (expect ''\"markdown\"'' s) (\<lambda>s.
     Option.bind (expect '':'' s) (\<lambda>s.
     Option.bind (expect ''{'' s) (\<lambda>s.
     Option.bind (expect ''\"content\"'' s) (\<lambda>s.
     Option.bind (expect '':'' s) (\<lambda>s.
     Option.bind (expect ''\"'' s) (\<lambda>s.
     Option.bind (json_string s) (\<lambda>(content, s).
     Option.bind (expect ''}'' s) (\<lambda>s.
     Option.bind (expect ''}'' s) (\<lambda>s.
       if skip_ws s = [] then Some content else None))))))))))))))"

section \<open>The scenario of the specification\<close>

definition scenario :: "string list" where
  "scenario =
     [''# Time: 2024-01-01T10:00:00'',
      ''# User@Host: app[app] @ 10.0.0.5'',
      ''# Query_time: 1.5  Lock_time: 0.1  Rows_sent: 3  Rows_examined: 500'',
      ''# Schema: orders'',
      ''SELECT * FROM orders;'']"

definition scenario_config :: "float64 \<Rightarrow> config" where
  "scenario_config threshold =
     \<lparr>webhookURL = ''https://qyapi.weixin.qq.com/cgi-bin/webhook/send?key=xxxxx'',
      slowLogFile = ''/var/log/mysql/mysql-slow.log'',
      slowQueryThreshold = threshold, isTest = False, readHistory = False\<rparr>"

section \<open>Auxiliary notions for the statements\<close>

text \<open>\<open>absent r ls\<close>: no line of \<open>ls\<close> matches the pattern \<open>r\<close>.\<close>

definition absent :: "re list \<Rightarrow> string list \<Rightarrow> bool" where
  "absent r ls = list_all (\<lambda>l. FindStringSubmatch r l = None) ls"

text \<open>
  The loop body without the bounds checks, which never fail
  (\<open>scan_line_never_panics\<close> below): a function on the local variables.
\<close>

definition scan_line_total :: "slow_query \<Rightarrow> string \<Rightarrow> slow_query" where
  "scan_line_total q line =
     (let q1 = (case FindStringSubmatch queryTimePattern line of
                  None \<Rightarrow> q
                | Some ms \<Rightarrow>
                    q\<lparr>queryTime := fst (ParseFloat (ms ! 1)), lockTime := fst (ParseFloat (ms ! 2)),
                      rowsSent := fst (Atoi (ms ! 3)), rowsExamined := fst (Atoi (ms ! 4))\<rparr>);
          q2 = (case FindStringSubmatch userHostPattern line of
                  None \<Rightarrow> q1
                | Some ms \<Rightarrow> q1\<lparr>user := ms ! 1, host := ms ! 2\<rparr>);
          q3 = (case FindStringSubmatch databasePattern line of
                  None \<Rightarrow> q2
                | Some ms \<Rightarrow> q2\<lparr>database := ms ! 1\<rparr>)
      in (case FindStringSubmatch sqlQueryEndPattern line of
            None \<Rightarrow> q3
          | Some ms \<Rightarrow> q3\<lparr>sqlQuery := line\<rparr>))"

text \<open>An entry in which every kind of line occurs twice.\<close>

definition duplicates :: "string list" where
  "duplicates =
     [''# User@Host: app[app] @ 10.0.0.5'',
      ''# Query_time: 1.5  Lock_time: 0.1  Rows_sent: 3  Rows_examined: 500'',
      ''# Schema: orders'',
      ''SELECT * FROM orders;'',
      ''# User@Host: batch[batch] @ 10.0.0.9'',
      ''# Query_time: 2  Lock_time: 0  Rows_sent: 7  Rows_examined: 9'',
      ''# Schema: billing'',
      ''select 1;'']"

text \<open>
  \<open>last_hit r ls\<close>: the last line of \<open>ls\<close> that matches the pattern \<open>r\<close>, with its
  submatches; \<open>None\<close> when no line matches.
\<close>

fun last_hit :: "re list \<Rightarrow> string list \<Rightarrow> (string \<times> string list) option" where
  "last_hit r [] = None"
| "last_hit r (l # ls) =
     (case last_hit r ls of
        Some h \<Rightarrow> Some h
      | None \<Rightarrow> map_option (Pair l) (FindStringSubmatch r l))"

text \<open>The scenario with a timing line that lacks \<^verbatim>\<open>Rows_examined\<close>.\<close>

definition truncated_timing :: "string list" where
  "truncated_timing =
     [''# Time: 2024-01-01T10:00:00'',
      ''# User@Host: app[app] @ 10.0.0.5'',
      ''# Query_time: 1.5  Lock_time: 0.1  Rows_sent: 3'',
      ''# Schema: orders'',
      ''SELECT * FROM orders;'']"

text \<open>The scenario without its \<^verbatim>\<open># Schema:\<close> line.\<close>

definition no_schema :: "string list" where
  "no_schema =
     [''# Time: 2024-01-01T10:00:00'',
      ''# User@Host: app[app] @ 10.0.0.5'',
      ''# Query_time: 1.5  Lock_time: 0.1  Rows_sent: 3  Rows_examined: 500'',
      ''SELECT * FROM orders;'']"

text \<open>An entry with a single \<^verbatim>\<open># Time:\<close> line and no timing line.\<close>

definition time_only :: "string list" where
  "time_only = [''# Time: 2024-01-01T10:00:00'']"

text \<open>An entry whose statement contains double quotes.\<close>

definition quoted :: "string list" where
  "quoted =
     [''# Query_time: 1.5  Lock_time: 0.1  Rows_sent: 3  Rows_examined: 500'',
      ''SELECT * FROM orders WHERE note = \"late\";'']"

text \<open>The variables that the specification expects for the scenario.\<close>

definition scenario_query :: slow_query where
  "scenario_query =
     \<lparr>queryTime = Finite (3 / 2),
      lockTime = Finite (3602879701896397 / 36028797018963968),
      rowsSent = 3, rowsExamined = 500, database = ''orders'',
      user = ''app'', host = ''10.0.0.5'', sqlQuery = ''SELECT * FROM orders;''\<rparr>"

section \<open>A declarative reading of the patterns\<close>

text \<open>
  The matcher is a search. To reason about what a submatch can be, the items are also
  read as relations between states of a match: the rest of the text, the position and
  the slots. \<open>seq_reach r st t\<close> holds when the items \<open>r\<close> can lead from \<open>st\<close> to \<open>t\<close>;
  every result of \<open>rmatch\<close> is such a path (\<open>rmatch_sound\<close> below).
\<close>

type_synonym mstate = "string \<times> nat \<times> slots"

inductive star_reach :: "cclass \<Rightarrow> mstate \<Rightarrow> mstate \<Rightarrow> bool" where
  star_stop: "star_reach k st st"
| star_more: "in_class k x \<Longrightarrow> star_reach k (xs, Suc p, c) t \<Longrightarrow> star_reach k (x # xs, p, c) t"

inductive item_reach :: "re \<Rightarrow> mstate \<Rightarrow> mstate \<Rightarrow> bool"
  and seq_reach :: "re list \<Rightarrow> mstate \<Rightarrow> mstate \<Rightarrow> bool" where
  reach_Lit: "item_reach (Lit a) (a # xs, p, c) (xs, Suc p, c)"
| reach_Cls: "in_class k x \<Longrightarrow> item_reach (Cls k) (x # xs, p, c) (xs, Suc p, c)"
| reach_Star: "star_reach k st t \<Longrightarrow> item_reach (Star k) st t"
| reach_Alt_left: "seq_reach a st t \<Longrightarrow> item_reach (Alt a b) st t"
| reach_Alt_right: "seq_reach b st t \<Longrightarrow> item_reach (Alt a b) st t"
| reach_Open: "item_reach (Open g) (s, p, c) (s, p, (2 * g, p) # c)"
| reach_Close: "item_reach (Close g) (s, p, c) (s, p, (2 * g + 1, p) # c)"
| reach_Bol: "item_reach Bol (s, 0, c) (s, 0, c)"
| reach_Eol: "item_reach Eol ([], p, c) ([], p, c)"
| reach_Nil: "seq_reach [] st st"
| reach_Cons: "item_reach i st m \<Longrightarrow> seq_reach r m t \<Longrightarrow> seq_reach (i # r) st t"

text \<open>
  Non-empty strings of digits, and the numbers that \<^verbatim>\<open>(\d+\.\d+|\d+)\<close> describes.
\<close>

definition is_digits :: "string \<Rightarrow> bool" where
  "is_digits s = (s \<noteq> [] \<and> list_all is_digit s)"

definition is_decimal :: "string \<Rightarrow> bool" where
  "is_decimal s =
     (\<exists>ip fp. is_digits ip \<and> (s = ip \<or> is_digits fp \<and> s = ip @ CHR ''.'' # fp))"

text \<open>
  \<open>consumes L st t\<close>: from \<open>st\<close> to \<open>t\<close> a word of \<open>L\<close> is read and no slot changes.
\<close>

definition consumes :: "(string \<Rightarrow> bool) \<Rightarrow> mstate \<Rightarrow> mstate \<Rightarrow> bool" where
  "consumes L st t =
     (\<exists>w. L w \<and> fst st = w @ fst t \<and> fst (snd t) = fst (snd st) + length w \<and>
        snd (snd t) = snd (snd st))"

text \<open>The values that the conversion of unsigned digits can give.\<close>

definition nonneg_or_inf :: "float64 \<Rightarrow> bool" where
  "nonneg_or_inf x = (case x of Finite r \<Rightarrow> 0 \<le> r | PosInf \<Rightarrow> True | _ \<Rightarrow> False)"

text \<open>
  The values that the parser can give to its numeric variables: times that are not
  negative, or infinite, and counts within the 64 bits of \<^verbatim>\<open>int\<close>.
\<close>

definition in_range :: "slow_query \<Rightarrow> bool" where
  "in_range q =
     (nonneg_or_inf (queryTime q) \<and> nonneg_or_inf (lockTime q) \<and>
      0 \<le> rowsSent q \<and> rowsSent q < 2 ^ 63 \<and> 0 \<le> rowsExamined q \<and> rowsExamined q < 2 ^ 63)"

section \<open>The parser never panics\<close>

lemma FindStringSubmatch_length:
  "FindStringSubmatch r s = Some ms \<Longrightarrow> length ms = Suc (NumSubexp r)"
  by (auto simp: FindStringSubmatch_def split: option.splits)

lemma NumSubexp_queryTimePattern: "NumSubexp queryTimePattern = 4"
  by code_simp

lemma NumSubexp_userHostPattern: "NumSubexp userHostPattern = 2"
  by code_simp

lemma NumSubexp_databasePattern: "NumSubexp databasePattern = 1"
  by code_simp

lemma index_in_range: "i < length ms \<Longrightarrow> index ms i = Inr (ms ! i)"
  by (simp add: index_def)

lemma and_then_Inr: "and_then (Inr v) f = f v"
  by (simp add: and_then_def)

lemma scan_queryTime_total:
  "scan_queryTime q line =
     Inr (case FindStringSubmatch queryTimePattern line of
            None \<Rightarrow> q
          | Some ms \<Rightarrow>
              q\<lparr>queryTime := fst (ParseFloat (ms ! 1)), lockTime := fst (ParseFloat (ms ! 2)),
                rowsSent := fst (Atoi (ms ! 3)), rowsExamined := fst (Atoi (ms ! 4))\<rparr>)"
proof (cases "FindStringSubmatch queryTimePattern line")
  case None
  then show ?thesis by (simp add: scan_queryTime_def)
next
  case (Some ms)
  then have "length ms = 5"
    using FindStringSubmatch_length NumSubexp_queryTimePattern by fastforce
  with Some show ?thesis
    by (simp add: scan_queryTime_def index_in_range and_then_Inr)
qed

lemma scan_userHost_total:
  "scan_userHost q line =
     Inr (case FindStringSubmatch userHostPattern line of
            None \<Rightarrow> q
          | Some ms \<Rightarrow> q\<lparr>user := ms ! 1, host := ms ! 2\<rparr>)"
proof (cases "FindStringSubmatch userHostPattern line")
  case None
  then show ?thesis by (simp add: scan_userHost_def)
next
  case (Some ms)
  then have "length ms = 3"
    using FindStringSubmatch_length NumSubexp_userHostPattern by fastforce
  with Some show ?thesis
    by (simp add: scan_userHost_def index_in_range and_then_Inr)
qed

lemma scan_database_total:
  "scan_database q line =
     Inr (case FindStringSubmatch databasePattern line of
            None \<Rightarrow> q
          | Some ms \<Rightarrow> q\<lparr>database := ms ! 1\<rparr>)"
proof (cases "FindStringSubmatch databasePattern line")
  case None
  then show ?thesis by (simp add: scan_database_def)
next
  case (Some ms)
  then have "length ms = 2"
    using FindStringSubmatch_length NumSubexp_databasePattern by fastforce
  with Some show ?thesis
    by (simp add: scan_database_def index_in_range and_then_Inr)
qed

lemma scan_sqlQuery_total:
  "scan_sqlQuery q line =
     Inr (case FindStringSubmatch sqlQueryEndPattern line of
            None \<Rightarrow> q
          | Some ms \<Rightarrow> q\<lparr>sqlQuery := line\<rparr>)"
  by (simp add: scan_sqlQuery_def split: option.splits)

lemma scan_line_never_panics: "scan_line q line = Inr (scan_line_total q line)"
  by (simp add: scan_line_def scan_line_total_def scan_queryTime_total scan_userHost_total
      scan_database_total scan_sqlQuery_total and_then_Inr Let_def)

lemma scan_lines_total: "scan_lines q ls = Inr (foldl scan_line_total q ls)"
  by (induction ls arbitrary: q) (simp_all add: scan_line_never_panics and_then_Inr)

lemma parse_total: "processSlowQuery_parse ls = Inr (foldl scan_line_total zero_values ls)"
  by (simp add: processSlowQuery_parse_def scan_lines_total)


section \<open>The submatches of the timing pattern are numbers\<close>

inductive_cases seq_reach_NilE: "seq_reach [] st t"
inductive_cases seq_reach_ConsE: "seq_reach (i # r) st t"
inductive_cases reach_LitE: "item_reach (Lit a) st t"
inductive_cases reach_ClsE: "item_reach (Cls k) st t"
inductive_cases reach_StarE: "item_reach (Star k) st t"
inductive_cases reach_AltE: "item_reach (Alt a b) st t"
inductive_cases reach_OpenE: "item_reach (Open g) st t"
inductive_cases reach_CloseE: "item_reach (Close g) st t"

lemma seq_reach_append:
  "seq_reach (a @ r) st t \<longleftrightarrow> (\<exists>m. seq_reach a st m \<and> seq_reach r m t)"
proof (induction a arbitrary: st)
  case Nil
  have "seq_reach [] st m \<longleftrightarrow> m = st" for m
    by (blast intro: reach_Nil elim: seq_reach_NilE)
  then show ?case by simp
next
  case (Cons i a)
  show ?case
  proof
    assume "seq_reach ((i # a) @ r) st t"
    then obtain m where "item_reach i st m" "seq_reach (a @ r) m t"
      by (auto elim: seq_reach_ConsE)
    with Cons show "\<exists>m. seq_reach (i # a) st m \<and> seq_reach r m t"
      by (auto intro: reach_Cons)
  next
    assume "\<exists>m. seq_reach (i # a) st m \<and> seq_reach r m t"
    then obtain m where "seq_reach (i # a) st m" "seq_reach r m t"
      by blast
    then obtain m1 where "item_reach i st m1" "seq_reach a m1 m" "seq_reach r m t"
      by (blast elim: seq_reach_ConsE)
    moreover from this Cons have "seq_reach (a @ r) m1 t"
      by blast
    ultimately show "seq_reach ((i # a) @ r) st t"
      by (simp add: reach_Cons)
  qed
qed

lemma rmatch_sound:
  "rmatch r s p c = Some (e, c') \<Longrightarrow> \<exists>s'. seq_reach r (s, p, c) (s', e, c')"
proof (induction r s p c rule: rmatch.induct)
  case (1 s p c)
  then show ?case by (auto intro: reach_Nil)
next
  case (3 a r x xs p c)
  then show ?case
    by (auto split: if_splits intro: reach_Cons reach_Lit)
next
  case (5 k r x xs p c)
  then show ?case
    by (auto split: if_splits intro: reach_Cons reach_Cls)
next
  case (6 k r p c)
  then show ?case
    by (auto intro: reach_Cons reach_Star star_stop)
next
  case (7 k r x xs p c)
  show ?case
  proof (cases "in_class k x \<and> rmatch (Star k # r) xs (Suc p) c \<noteq> None")
    case True
    with "7.prems" have "rmatch (Star k # r) xs (Suc p) c = Some (e, c')"
      by auto
    with True "7.IH"(1) obtain s' where "seq_reach (Star k # r) (xs, Suc p, c) (s', e, c')"
      by blast
    then obtain m where "item_reach (Star k) (xs, Suc p, c) m" "seq_reach r m (s', e, c')"
      by (auto elim: seq_reach_ConsE)
    with True show ?thesis
      by (blast intro: reach_Cons reach_Star star_more elim: reach_StarE)
  next
    case False
    with "7.prems" have m: "rmatch r (x # xs) p c = Some (e, c')"
      by (auto split: if_splits option.splits)
    have "\<exists>s'. seq_reach r (x # xs, p, c) (s', e, c')"
    proof (cases "in_class k x")
      case True
      with False have "rmatch (Star k # r) xs (Suc p) c = None"
        by (cases "rmatch (Star k # r) xs (Suc p) c") auto
      with True m "7.IH"(2) show ?thesis
        by blast
    next
      case False
      with m "7.IH"(3) show ?thesis
        by blast
    qed
    then show ?thesis
      by (blast intro: reach_Cons reach_Star star_stop)
  qed
next
  case (8 a b r s p c)
  show ?case
  proof (cases "rmatch (a @ r) s p c")
    case None
    with "8.prems" "8.IH"(2) obtain s' where "seq_reach (b @ r) (s, p, c) (s', e, c')"
      by auto
    then show ?thesis
      unfolding seq_reach_append by (blast intro: reach_Cons reach_Alt_right)
  next
    case (Some m)
    with "8.prems" "8.IH"(1) obtain s' where "seq_reach (a @ r) (s, p, c) (s', e, c')"
      by auto
    then show ?thesis
      unfolding seq_reach_append by (blast intro: reach_Cons reach_Alt_left)
  qed
next
  case (9 g r s p c)
  then show ?case
    by (auto intro: reach_Cons reach_Open)
next
  case (10 g r s p c)
  then obtain s' where "seq_reach r (s, p, (2 * g + 1, p) # c) (s', e, c')"
    by auto
  then show ?case
    by (blast intro: reach_Cons reach_Close)
next
  case (11 r s p c)
  then show ?case
    by (auto split: if_splits intro: reach_Cons reach_Bol)
next
  case (12 r s p c)
  then show ?case
    by (auto split: if_splits intro: reach_Cons reach_Eol)
qed simp_all

lemma consumes_refl: "L [] \<Longrightarrow> consumes L st st"
  by (simp add: consumes_def)

lemma consumes_trans:
  "consumes L1 st m \<Longrightarrow> consumes L2 m t \<Longrightarrow> (\<And>u v. L1 u \<Longrightarrow> L2 v \<Longrightarrow> L (u @ v)) \<Longrightarrow>
     consumes L st t"
proof -
  assume a: "consumes L1 st m" and b: "consumes L2 m t"
    and L: "\<And>u v. L1 u \<Longrightarrow> L2 v \<Longrightarrow> L (u @ v)"
  from a obtain u where u: "L1 u" "fst st = u @ fst m" "fst (snd m) = fst (snd st) + length u"
    "snd (snd m) = snd (snd st)"
    unfolding consumes_def by blast
  from b obtain v where v: "L2 v" "fst m = v @ fst t" "fst (snd t) = fst (snd m) + length v"
    "snd (snd t) = snd (snd m)"
    unfolding consumes_def by blast
  from u v L [of u v] show ?thesis
    unfolding consumes_def by (intro exI [of _ "u @ v"]) simp
qed

lemma consumes_weaken: "consumes L st t \<Longrightarrow> (\<And>w. L w \<Longrightarrow> L' w) \<Longrightarrow> consumes L' st t"
  unfolding consumes_def by blast

lemma star_consumes: "star_reach k st t \<Longrightarrow> consumes (list_all (in_class k)) st t"
proof (induction rule: star_reach.induct)
  case (star_stop k st)
  show ?case by (simp add: consumes_refl)
next
  case (star_more k x xs p c t)
  then obtain w where "list_all (in_class k) w" "xs = w @ fst t"
    "fst (snd t) = Suc p + length w" "snd (snd t) = c"
    by (auto simp: consumes_def)
  then show ?case
    using star_more.hyps(1) unfolding consumes_def
    by (intro exI [of _ "x # w"]) simp
qed

lemma many_consumes: "seq_reach (many k) st t \<Longrightarrow> consumes (list_all (in_class k)) st t"
  unfolding many_def
  by (blast elim: seq_reach_ConsE seq_reach_NilE reach_StarE intro: star_consumes)

lemma Cls_consumes: "item_reach (Cls k) st t \<Longrightarrow> consumes (\<lambda>w. \<exists>x. w = [x] \<and> in_class k x) st t"
  by (erule reach_ClsE) (simp add: consumes_def)

lemma many1_consumes:
  "seq_reach (many1 k) st t \<Longrightarrow> consumes (\<lambda>w. w \<noteq> [] \<and> list_all (in_class k) w) st t"
proof -
  assume "seq_reach (many1 k) st t"
  then obtain m where "item_reach (Cls k) st m" "star_reach k m t"
    unfolding many1_def
    by (blast elim: seq_reach_ConsE seq_reach_NilE reach_StarE)
  then have "consumes (\<lambda>w. \<exists>x. w = [x] \<and> in_class k x) st m"
    "consumes (list_all (in_class k)) m t"
    by (simp_all add: Cls_consumes star_consumes)
  then show ?thesis
    by (rule consumes_trans) auto
qed

lemma lit_consumes: "seq_reach (lit w) st t \<Longrightarrow> consumes (\<lambda>v. v = w) st t"
proof (induction w arbitrary: st)
  case Nil
  then show ?case
    by (auto simp: lit_def consumes_def elim: seq_reach_NilE)
next
  case (Cons a w)
  from Cons.prems obtain m where "item_reach (Lit a) st m" "seq_reach (lit w) m t"
    by (auto simp: lit_def elim: seq_reach_ConsE)
  moreover from this have "consumes (\<lambda>v. v = [a]) st m"
    by (auto simp: consumes_def elim: reach_LitE)
  ultimately show ?case
    using Cons.IH [of m] by (auto intro: consumes_trans)
qed

lemma digits_consumes: "seq_reach (many1 Digit) st t \<Longrightarrow> consumes is_digits st t"
  by (drule many1_consumes, erule consumes_weaken) (simp add: is_digits_def list_all_iff)

lemma decimal_consumes:
  "seq_reach (alt (many1 Digit @ lit ''.'' @ many1 Digit) (many1 Digit)) st t \<Longrightarrow>
     consumes is_decimal st t"
proof -
  assume "seq_reach (alt (many1 Digit @ lit ''.'' @ many1 Digit) (many1 Digit)) st t"
  then consider "seq_reach (many1 Digit @ lit ''.'' @ many1 Digit) st t" | "seq_reach (many1 Digit) st t"
    unfolding alt_def by (blast elim: seq_reach_ConsE seq_reach_NilE reach_AltE)
  then show ?thesis
  proof cases
    case 1
    then obtain m1 m2 where "seq_reach (many1 Digit) st m1" "seq_reach (lit ''.'') m1 m2"
      "seq_reach (many1 Digit) m2 t"
      unfolding seq_reach_append by blast
    then have a: "consumes is_digits st m1" and b: "consumes (\<lambda>v. v = ''.'') m1 m2"
      and c: "consumes is_digits m2 t"
      by (simp_all add: digits_consumes lit_consumes)
    from b c have "consumes (\<lambda>v. \<exists>fp. is_digits fp \<and> v = CHR ''.'' # fp) m1 t"
      by (rule consumes_trans) simp
    with a show ?thesis
      by (rule consumes_trans) (auto simp: is_decimal_def)
  next
    case 2
    then show ?thesis
      by (auto dest!: digits_consumes elim!: consumes_weaken simp: is_decimal_def)
  qed
qed


lemma consumes_tracks:
  "consumes L (drop p text, p, c) t \<Longrightarrow> p \<le> length text \<Longrightarrow>
     \<exists>p'. t = (drop p' text, p', c) \<and> p \<le> p' \<and> p' \<le> length text \<and>
       L (take (p' - p) (drop p text))"
proof -
  assume "consumes L (drop p text, p, c) t" and p: "p \<le> length text"
  then obtain w where w: "L w" "drop p text = w @ fst t" "fst (snd t) = p + length w"
    "snd (snd t) = c"
    by (auto simp: consumes_def)
  from w(2) have "length (drop p text) = length w + length (fst t)"
    by simp
  with p have le: "p + length w \<le> length text"
    by simp
  have "drop (p + length w) text = drop (length w) (drop p text)"
    by (simp add: add.commute)
  with w(2) have "fst t = drop (p + length w) text"
    by simp
  moreover from w(2) have "take (length w) (drop p text) = w"
    by simp
  ultimately show ?thesis
    using w le by (intro exI [of _ "p + length w"]) (auto simp: prod_eq_iff)
qed

lemma grp_tracks:
  assumes inner: "\<And>st t. seq_reach inner st t \<Longrightarrow> consumes L st t"
    and reach: "seq_reach (grp g inner) (drop p text, p, c) t"
    and p: "p \<le> length text"
  shows "\<exists>p'. t = (drop p' text, p', (2 * g + 1, p') # (2 * g, p) # c) \<and> p \<le> p' \<and>
    p' \<le> length text \<and> L (take (p' - p) (drop p text))"
proof -
  from reach obtain m0 where "item_reach (Open g) (drop p text, p, c) m0"
    "seq_reach (inner @ [Close g]) m0 t"
    unfolding grp_def by (blast elim: seq_reach_ConsE)
  moreover from this(1) have "m0 = (drop p text, p, (2 * g, p) # c)"
    by (auto elim: reach_OpenE)
  ultimately obtain m where "seq_reach inner (drop p text, p, (2 * g, p) # c) m"
    and close: "seq_reach [Close g] m t"
    unfolding seq_reach_append by blast
  with inner p obtain p' where p': "m = (drop p' text, p', (2 * g, p) # c)" "p \<le> p'"
    "p' \<le> length text" "L (take (p' - p) (drop p text))"
    using consumes_tracks by blast
  from close have "t = (drop p' text, p', (2 * g + 1, p') # (2 * g, p) # c)"
    unfolding p'(1) by (auto elim!: seq_reach_ConsE seq_reach_NilE reach_CloseE)
  with p' show ?thesis by blast
qed

lemma sep_tracks:
  assumes "seq_reach (many k @ lit w @ many k') (drop p text, p, c) t" and "p \<le> length text"
  shows "\<exists>p'. t = (drop p' text, p', c) \<and> p' \<le> length text"
proof -
  from assms(1) obtain m1 m2 where "seq_reach (many k) (drop p text, p, c) m1"
    "seq_reach (lit w) m1 m2" "seq_reach (many k') m2 t"
    unfolding seq_reach_append by blast
  then have "consumes (\<lambda>_. True) (drop p text, p, c) m1" "consumes (\<lambda>_. True) m1 m2"
    "consumes (\<lambda>_. True) m2 t"
    by (auto dest!: many_consumes lit_consumes elim: consumes_weaken)
  then have "consumes (\<lambda>_. True) (drop p text, p, c) t"
    by (blast intro: consumes_trans)
  with assms(2) show ?thesis
    using consumes_tracks by blast
qed

lemma head_tracks:
  assumes "seq_reach (lit w @ many k) (drop p text, p, c) t" and "p \<le> length text"
  shows "\<exists>p'. t = (drop p' text, p', c) \<and> p' \<le> length text"
proof -
  from assms(1) obtain m where "seq_reach (lit w) (drop p text, p, c) m" "seq_reach (many k) m t"
    unfolding seq_reach_append by blast
  then have "consumes (\<lambda>_. True) (drop p text, p, c) m" "consumes (\<lambda>_. True) m t"
    by (auto dest!: many_consumes lit_consumes elim: consumes_weaken)
  then have "consumes (\<lambda>_. True) (drop p text, p, c) t"
    by (blast intro: consumes_trans)
  with assms(2) show ?thesis
    using consumes_tracks by blast
qed

lemma queryTimePattern_reach:
  assumes reach: "seq_reach (Open 0 # queryTimePattern @ [Close 0]) (drop p text, p, []) (s', e, c')"
    and p: "p \<le> length text"
  shows "is_decimal (submatch text c' 1) \<and> is_decimal (submatch text c' 2) \<and>
    is_digits (submatch text c' 3) \<and> is_digits (submatch text c' 4)"
proof -
  let ?D = "alt (many1 Digit @ lit ''.'' @ many1 Digit) (many1 Digit)"
  let ?N = "many1 Digit"
  define P0 where "P0 = lit ''# Query_time:'' @ many Space"
  define S1 where "S1 = many Space @ lit ''Lock_time:'' @ many Space"
  define S2 where "S2 = many Space @ lit ''Rows_sent:'' @ many Space"
  define S3 where "S3 = many Space @ lit ''Rows_examined:'' @ many Space"
  define G1 where "G1 = grp 1 ?D"
  define G2 where "G2 = grp 2 ?D"
  define G3 where "G3 = grp 3 ?N"
  define G4 where "G4 = grp 4 ?N"
  have eq: "Open 0 # queryTimePattern @ [Close 0] =
      [Open 0] @ P0 @ G1 @ S1 @ G2 @ S2 @ G3 @ S3 @ G4 @ [Close 0]"
    by (simp add: queryTimePattern_def P0_def S1_def S2_def S3_def G1_def G2_def G3_def G4_def)
  from reach obtain a0 a1 a2 a3 a4 a5 a6 a7 a8 where
    r0: "seq_reach [Open 0] (drop p text, p, []) a0" and
    r1': "seq_reach P0 a0 a1" and
    r2: "seq_reach G1 a1 a2" and
    r3: "seq_reach S1 a2 a3" and
    r4: "seq_reach G2 a3 a4" and
    r5: "seq_reach S2 a4 a5" and
    r6: "seq_reach G3 a5 a6" and
    r7: "seq_reach S3 a6 a7" and
    r8: "seq_reach G4 a7 a8" and
    r9: "seq_reach [Close 0] a8 (s', e, c')"
    unfolding eq seq_reach_append by blast
  from r0 have "a0 = (drop p text, p, [(0, p)])"
    by (auto elim!: seq_reach_ConsE seq_reach_NilE reach_OpenE)
  with r1' have r1: "seq_reach (lit ''# Query_time:'' @ many Space) (drop p text, p, [(0, p)]) a1"
    by (simp add: P0_def)
  note r2 = r2 [unfolded G1_def] and r3 = r3 [unfolded S1_def] and r4 = r4 [unfolded G2_def]
    and r5 = r5 [unfolded S2_def] and r6 = r6 [unfolded G3_def] and r7 = r7 [unfolded S3_def]
    and r8 = r8 [unfolded G4_def]
  from head_tracks [OF r1 p] obtain p1 where a1: "a1 = (drop p1 text, p1, [(0, p)])"
    and p1: "p1 \<le> length text"
    by blast
  from grp_tracks [OF decimal_consumes r2 [unfolded a1] p1] obtain p2 where
    a2: "a2 = (drop p2 text, p2, [(3, p2), (2, p1), (0, p)])" and p2: "p2 \<le> length text"
    and d1: "is_decimal (take (p2 - p1) (drop p1 text))"
    by auto
  from sep_tracks [OF r3 [unfolded a2] p2] obtain p3 where
    a3: "a3 = (drop p3 text, p3, [(3, p2), (2, p1), (0, p)])" and p3: "p3 \<le> length text"
    by blast
  from grp_tracks [OF decimal_consumes r4 [unfolded a3] p3] obtain p4 where
    a4: "a4 = (drop p4 text, p4, [(5, p4), (4, p3), (3, p2), (2, p1), (0, p)])"
    and p4: "p4 \<le> length text" and d2: "is_decimal (take (p4 - p3) (drop p3 text))"
    by auto
  from sep_tracks [OF r5 [unfolded a4] p4] obtain p5 where
    a5: "a5 = (drop p5 text, p5, [(5, p4), (4, p3), (3, p2), (2, p1), (0, p)])"
    and p5: "p5 \<le> length text"
    by blast
  from grp_tracks [OF digits_consumes r6 [unfolded a5] p5] obtain p6 where
    a6: "a6 = (drop p6 text, p6, [(7, p6), (6, p5), (5, p4), (4, p3), (3, p2), (2, p1), (0, p)])"
    and p6: "p6 \<le> length text" and d3: "is_digits (take (p6 - p5) (drop p5 text))"
    by auto
  from sep_tracks [OF r7 [unfolded a6] p6] obtain p7 where
    a7: "a7 = (drop p7 text, p7, [(7, p6), (6, p5), (5, p4), (4, p3), (3, p2), (2, p1), (0, p)])"
    and p7: "p7 \<le> length text"
    by blast
  from grp_tracks [OF digits_consumes r8 [unfolded a7] p7] obtain p8 where
    a8: "a8 = (drop p8 text, p8,
      [(9, p8), (8, p7), (7, p6), (6, p5), (5, p4), (4, p3), (3, p2), (2, p1), (0, p)])"
    and d4: "is_digits (take (p8 - p7) (drop p7 text))"
    by auto
  from r9 have "c' = [(1, p8), (9, p8), (8, p7), (7, p6), (6, p5), (5, p4), (4, p3), (3, p2),
      (2, p1), (0, p)]"
    unfolding a8 by (auto elim!: seq_reach_ConsE seq_reach_NilE reach_CloseE)
  with d1 d2 d3 d4 show ?thesis
    by (simp add: submatch_def)
qed

lemma search_rmatch:
  "search r s p = Some c' \<Longrightarrow>
     \<exists>k e. k \<le> length s \<and> rmatch r (drop k s) (p + k) [] = Some (e, c')"
proof (induction s arbitrary: p)
  case Nil
  then show ?case by auto
next
  case (Cons x xs)
  show ?case
  proof (cases "rmatch r (x # xs) p []")
    case None
    with Cons.prems have "search r xs (Suc p) = Some c'"
      by simp
    from Cons.IH [OF this] obtain k e where "k \<le> length xs"
      "rmatch r (drop k xs) (Suc p + k) [] = Some (e, c')"
      by blast
    then show ?thesis
      by (intro exI [of _ "Suc k"] exI [of _ e]) simp
  next
    case (Some m)
    with Cons.prems have "rmatch r (x # xs) p [] = Some (fst m, c')"
      by (cases m) simp
    then show ?thesis
      by (intro exI [of _ 0] exI [of _ "fst m"]) simp
  qed
qed

lemma timing_submatches:
  assumes "FindStringSubmatch queryTimePattern line = Some ms"
  shows "is_decimal (ms ! 1) \<and> is_decimal (ms ! 2) \<and> is_digits (ms ! 3) \<and> is_digits (ms ! 4)"
proof -
  from assms obtain c' where s: "search (Open 0 # queryTimePattern @ [Close 0]) line 0 = Some c'"
    and ms: "ms = map (submatch line c') [0 ..< Suc (NumSubexp queryTimePattern)]"
    by (auto simp: FindStringSubmatch_def split: option.splits)
  from search_rmatch [OF s] obtain k e where k: "k \<le> length line"
    and "rmatch (Open 0 # queryTimePattern @ [Close 0]) (drop k line) k [] = Some (e, c')"
    by auto
  from rmatch_sound [OF this(2)] obtain s' where
    "seq_reach (Open 0 # queryTimePattern @ [Close 0]) (drop k line, k, []) (s', e, c')"
    by blast
  from queryTimePattern_reach [OF this k] have "is_decimal (submatch line c' 1) \<and>
    is_decimal (submatch line c' 2) \<and> is_digits (submatch line c' 3) \<and>
    is_digits (submatch line c' 4)" .
  moreover have "NumSubexp queryTimePattern = 4"
    by code_simp
  then have "ms ! i = submatch line c' i" if "i < 5" for i
    unfolding ms using that by simp
  then have "ms ! 1 = submatch line c' 1" "ms ! 2 = submatch line c' 2"
    "ms ! 3 = submatch line c' 3" "ms ! 4 = submatch line c' 4"
    by simp_all
  ultimately show ?thesis
    by metis
qed


lemma is_digit_not_sign: "is_digit c \<Longrightarrow> c \<noteq> CHR ''.'' \<and> c \<noteq> CHR ''-'' \<and> c \<noteq> CHR ''+''"
  by (auto simp: is_digit_def)

lemma ParseFloat_digits:
  "is_digits ip \<Longrightarrow>
     ParseFloat ip = (nearest_float64 (decimal ip) 1, nearest_float64 (decimal ip) 1 = PosInf)"
proof -
  assume "is_digits ip"
  then have ne: "ip \<noteq> []" and tw: "takeWhile is_digit ip = ip"
    and dw: "dropWhile is_digit ip = []"
    by (simp_all add: is_digits_def list_all_iff)
  show ?thesis
    unfolding ParseFloat_def Let_def tw dw using ne by simp
qed

lemma ParseFloat_point:
  assumes "is_digits ip" "is_digits fp"
  shows "ParseFloat (ip @ CHR ''.'' # fp) =
    (nearest_float64 (decimal (ip @ fp)) (10 ^ length fp),
     nearest_float64 (decimal (ip @ fp)) (10 ^ length fp) = PosInf)"
proof -
  from assms(1) have ip: "ip \<noteq> []" "\<And>x. x \<in> set ip \<Longrightarrow> is_digit x"
    by (simp_all add: is_digits_def list_all_iff)
  have "\<not> is_digit CHR ''.''"
    using is_digit_not_sign by blast
  with ip have tw: "takeWhile is_digit (ip @ CHR ''.'' # fp) = ip"
    and dw: "dropWhile is_digit (ip @ CHR ''.'' # fp) = CHR ''.'' # fp"
    by (simp_all add: takeWhile_append2 dropWhile_append2)
  show ?thesis
    unfolding ParseFloat_def Let_def tw dw using ip(1) assms(2) by (simp add: is_digits_def)
qed

lemma Atoi_digits:
  assumes "is_digits ds"
  shows "Atoi ds =
    (if 2 ^ 63 - 1 < decimal ds then (2 ^ 63 - 1, True) else (decimal ds, False))"
proof -
  from assms have "ds \<noteq> []" "list_all is_digit ds" "is_digit (hd ds)"
    by (auto simp: is_digits_def list_all_iff)
  then show ?thesis
    using is_digit_not_sign [of "hd ds"] by (simp add: Atoi_def)
qed

lemma digit_val_range: "is_digit c \<Longrightarrow> 0 \<le> digit_val c \<and> digit_val c \<le> 9"
  by (auto simp: is_digit_def digit_val_def)

lemma decimal_nonneg_aux:
  "list_all is_digit s \<Longrightarrow> 0 \<le> a \<Longrightarrow> 0 \<le> foldl (\<lambda>a c. 10 * a + digit_val c) a s"
proof (induction s arbitrary: a)
  case Nil
  then show ?case by simp
next
  case (Cons c s)
  then have "0 \<le> 10 * a + digit_val c"
    using digit_val_range [of c] by simp
  with Cons show ?case by simp
qed

lemma decimal_nonneg: "list_all is_digit s \<Longrightarrow> 0 \<le> decimal s"
  by (simp add: decimal_def decimal_nonneg_aux)

lemma round_half_even_nonneg: "0 \<le> a \<Longrightarrow> 0 < b \<Longrightarrow> 0 \<le> round_half_even a b"
  by (simp add: round_half_even_def Let_def pos_imp_zdiv_nonneg_iff)

lemma nearest_float64_nonneg: "0 \<le> n \<Longrightarrow> 0 < d \<Longrightarrow> nonneg_or_inf (nearest_float64 n d)"
  by (simp add: nearest_float64_def nonneg_or_inf_def Let_def round_half_even_nonneg)

lemma ParseFloat_decimal:
  assumes "is_decimal s"
  shows "\<exists>n d. 0 \<le> n \<and> 0 < d \<and>
    ParseFloat s = (nearest_float64 n d, nearest_float64 n d = PosInf)"
proof -
  from assms obtain ip fp where ip: "is_digits ip"
    and s: "s = ip \<or> is_digits fp \<and> s = ip @ CHR ''.'' # fp"
    unfolding is_decimal_def by blast
  from s show ?thesis
  proof
    assume "s = ip"
    with ip show ?thesis
      using ParseFloat_digits [of ip] decimal_nonneg [of ip]
      by (intro exI [of _ "decimal ip"] exI [of _ 1]) (simp add: is_digits_def)
  next
    assume "is_digits fp \<and> s = ip @ CHR ''.'' # fp"
    with ip show ?thesis
      using ParseFloat_point [of ip fp] decimal_nonneg [of "ip @ fp"]
      by (intro exI [of _ "decimal (ip @ fp)"] exI [of _ "10 ^ length fp"])
        (simp add: is_digits_def)
  qed
qed

section \<open>Each variable depends on the lines of its own pattern\<close>

lemma timing_scan_line:
  "queryTime (scan_line_total q l) =
     (case FindStringSubmatch queryTimePattern l of
        None \<Rightarrow> queryTime q | Some ms \<Rightarrow> fst (ParseFloat (ms ! 1)))"
  "lockTime (scan_line_total q l) =
     (case FindStringSubmatch queryTimePattern l of
        None \<Rightarrow> lockTime q | Some ms \<Rightarrow> fst (ParseFloat (ms ! 2)))"
  "rowsSent (scan_line_total q l) =
     (case FindStringSubmatch queryTimePattern l of
        None \<Rightarrow> rowsSent q | Some ms \<Rightarrow> fst (Atoi (ms ! 3)))"
  "rowsExamined (scan_line_total q l) =
     (case FindStringSubmatch queryTimePattern l of
        None \<Rightarrow> rowsExamined q | Some ms \<Rightarrow> fst (Atoi (ms ! 4)))"
  by (simp_all add: scan_line_total_def Let_def split: option.splits)

lemma userHost_scan_line:
  "user (scan_line_total q l) =
     (case FindStringSubmatch userHostPattern l of None \<Rightarrow> user q | Some ms \<Rightarrow> ms ! 1)"
  "host (scan_line_total q l) =
     (case FindStringSubmatch userHostPattern l of None \<Rightarrow> host q | Some ms \<Rightarrow> ms ! 2)"
  by (simp_all add: scan_line_total_def Let_def split: option.splits)

lemma database_scan_line:
  "database (scan_line_total q l) =
     (case FindStringSubmatch databasePattern l of None \<Rightarrow> database q | Some ms \<Rightarrow> ms ! 1)"
  by (simp add: scan_line_total_def Let_def split: option.splits)

lemma sqlQuery_scan_line:
  "sqlQuery (scan_line_total q l) =
     (case FindStringSubmatch sqlQueryEndPattern l of None \<Rightarrow> sqlQuery q | Some ms \<Rightarrow> l)"
  by (simp add: scan_line_total_def Let_def split: option.splits)

lemma timing_absent:
  "absent queryTimePattern ls \<Longrightarrow>
     queryTime (foldl scan_line_total q ls) = queryTime q \<and>
     lockTime (foldl scan_line_total q ls) = lockTime q \<and>
     rowsSent (foldl scan_line_total q ls) = rowsSent q \<and>
     rowsExamined (foldl scan_line_total q ls) = rowsExamined q"
  by (induction ls arbitrary: q) (simp_all add: absent_def timing_scan_line)

lemma userHost_absent:
  "absent userHostPattern ls \<Longrightarrow>
     user (foldl scan_line_total q ls) = user q \<and> host (foldl scan_line_total q ls) = host q"
  by (induction ls arbitrary: q) (simp_all add: absent_def userHost_scan_line)

lemma database_absent:
  "absent databasePattern ls \<Longrightarrow> database (foldl scan_line_total q ls) = database q"
  by (induction ls arbitrary: q) (simp_all add: absent_def database_scan_line)

lemma sqlQuery_absent:
  "absent sqlQueryEndPattern ls \<Longrightarrow> sqlQuery (foldl scan_line_total q ls) = sqlQuery q"
  by (induction ls arbitrary: q) (simp_all add: absent_def sqlQuery_scan_line)

section \<open>The numeric variables are in range\<close>

text \<open>
  The conversions are only applied to submatches of the timing pattern, which are
  unsigned decimal numbers: the notations of strconv that are not modelled cannot
  occur, the times are never NaN or negative, and the counts fit \<^verbatim>\<open>int\<close>.
\<close>

lemma timing_conversions:
  assumes "FindStringSubmatch queryTimePattern line = Some ms"
  shows "nonneg_or_inf (fst (ParseFloat (ms ! 1)))"
    and "nonneg_or_inf (fst (ParseFloat (ms ! 2)))"
    and "0 \<le> fst (Atoi (ms ! 3)) \<and> fst (Atoi (ms ! 3)) < 2 ^ 63"
    and "0 \<le> fst (Atoi (ms ! 4)) \<and> fst (Atoi (ms ! 4)) < 2 ^ 63"
proof -
  from timing_submatches [OF assms] have d: "is_decimal (ms ! 1)" "is_decimal (ms ! 2)"
    and n: "is_digits (ms ! 3)" "is_digits (ms ! 4)"
    by simp_all
  from d show "nonneg_or_inf (fst (ParseFloat (ms ! 1)))"
    and "nonneg_or_inf (fst (ParseFloat (ms ! 2)))"
    using ParseFloat_decimal nearest_float64_nonneg by fastforce+
  from n show "0 \<le> fst (Atoi (ms ! 3)) \<and> fst (Atoi (ms ! 3)) < 2 ^ 63"
    and "0 \<le> fst (Atoi (ms ! 4)) \<and> fst (Atoi (ms ! 4)) < 2 ^ 63"
    using decimal_nonneg by (auto simp: Atoi_digits is_digits_def)
qed

lemma in_range_scan_line: "in_range q \<Longrightarrow> in_range (scan_line_total q line)"
proof (cases "FindStringSubmatch queryTimePattern line")
  case None
  assume "in_range q"
  with None show ?thesis
    by (simp add: in_range_def timing_scan_line)
next
  case (Some ms)
  from timing_conversions [OF this] Some show ?thesis
    by (simp add: in_range_def timing_scan_line)
qed

lemma in_range_scan_lines: "in_range q \<Longrightarrow> in_range (foldl scan_line_total q ls)"
  by (induction ls arbitrary: q) (simp_all add: in_range_scan_line)

lemma parsed_values_in_range: "processSlowQuery_parse ls = Inr q \<Longrightarrow> in_range q"
proof -
  have "in_range zero_values"
    by (simp add: in_range_def zero_values_def nonneg_or_inf_def)
  then have "in_range (foldl scan_line_total zero_values ls)"
    by (rule in_range_scan_lines)
  moreover assume "processSlowQuery_parse ls = Inr q"
  ultimately show ?thesis
    by (simp add: parse_total)
qed

section \<open>Repeated lines: the last match wins\<close>

text \<open>
  Claim C3, as amended. The loop of \<^verbatim>\<open>processSlowQuery\<close> assigns its variables at
  every line that matches, so a later line overwrites what an earlier one set. For
  every entry and each of the four patterns: when a line of the entry matches the
  pattern and no line after it does, the variables of that pattern hold the values of
  that line, whatever the lines before it set.
\<close>

theorem last_match_wins:
  "\<exists>q. processSlowQuery_parse (before @ line # after) = Inr q \<and>
     (\<forall>ms. FindStringSubmatch queryTimePattern line = Some ms \<and> absent queryTimePattern after \<longrightarrow>
        queryTime q = fst (ParseFloat (ms ! 1)) \<and> lockTime q = fst (ParseFloat (ms ! 2)) \<and>
        rowsSent q = fst (Atoi (ms ! 3)) \<and> rowsExamined q = fst (Atoi (ms ! 4))) \<and>
     (\<forall>ms. FindStringSubmatch userHostPattern line = Some ms \<and> absent userHostPattern after \<longrightarrow>
        user q = ms ! 1 \<and> host q = ms ! 2) \<and>
     (\<forall>ms. FindStringSubmatch databasePattern line = Some ms \<and> absent databasePattern after \<longrightarrow>
        database q = ms ! 1) \<and>
     (FindStringSubmatch sqlQueryEndPattern line \<noteq> None \<and> absent sqlQueryEndPattern after \<longrightarrow>
        sqlQuery q = line)"
proof -
  define q0 where "q0 = foldl scan_line_total zero_values before"
  define q where "q = foldl scan_line_total (scan_line_total q0 line) after"
  have parse: "processSlowQuery_parse (before @ line # after) = Inr q"
    by (simp add: parse_total q_def q0_def)
  have t: "queryTime q = fst (ParseFloat (ms ! 1)) \<and> lockTime q = fst (ParseFloat (ms ! 2)) \<and>
      rowsSent q = fst (Atoi (ms ! 3)) \<and> rowsExamined q = fst (Atoi (ms ! 4))"
    if "FindStringSubmatch queryTimePattern line = Some ms" "absent queryTimePattern after" for ms
    using that timing_absent [of after "scan_line_total q0 line"]
    by (simp add: q_def timing_scan_line)
  have u: "user q = ms ! 1 \<and> host q = ms ! 2"
    if "FindStringSubmatch userHostPattern line = Some ms" "absent userHostPattern after" for ms
    using that userHost_absent [of after "scan_line_total q0 line"]
    by (simp add: q_def userHost_scan_line)
  have d: "database q = ms ! 1"
    if "FindStringSubmatch databasePattern line = Some ms" "absent databasePattern after" for ms
    using that database_absent [of after "scan_line_total q0 line"]
    by (simp add: q_def database_scan_line)
  have s: "sqlQuery q = line"
    if "FindStringSubmatch sqlQueryEndPattern line \<noteq> None" "absent sqlQueryEndPattern after"
    using that sqlQuery_absent [of after "scan_line_total q0 line"]
    by (auto simp: q_def sqlQuery_scan_line)
  from parse t u d s show ?thesis by blast
qed


text \<open>
  Claim C3 as stated fails: of two \<^verbatim>\<open># Schema:\<close> lines the parser keeps the second.
\<close>

theorem first_match_overwritten:
  "FindStringSubmatch databasePattern ''# Schema: first'' = Some [''# Schema: first'', ''first''] \<and>
   FindStringSubmatch databasePattern ''# Schema: second'' = Some [''# Schema: second'', ''second''] \<and>
   processSlowQuery_parse [''# Schema: first'', ''# Schema: second''] =
     Inr (zero_values\<lparr>database := ''second''\<rparr>)"
  by code_simp

text \<open>The theorem at the entry \<open>duplicates\<close>, once for each pattern.\<close>

theorem last_match_wins_witness:
  "processSlowQuery_parse duplicates =
     Inr \<lparr>queryTime = Finite 2, lockTime = Finite 0, rowsSent = 7, rowsExamined = 9,
          database = ''billing'', user = ''batch'', host = ''10.0.0.9'', sqlQuery = ''select 1;''\<rparr>"
proof -
  have split_u: "take 4 duplicates @ duplicates ! 4 # drop 5 duplicates = duplicates"
    and split_t: "take 5 duplicates @ duplicates ! 5 # drop 6 duplicates = duplicates"
    and split_d: "take 6 duplicates @ duplicates ! 6 # drop 7 duplicates = duplicates"
    and split_s: "take 7 duplicates @ duplicates ! 7 # drop 8 duplicates = duplicates"
    by (simp_all add: duplicates_def)
  have mu: "FindStringSubmatch userHostPattern (duplicates ! 4) =
      Some [''# User@Host: batch[batch] @ 10.0.0.9'', ''batch'', ''10.0.0.9'']"
    and abs_u: "absent userHostPattern (drop 5 duplicates)"
    and mt: "FindStringSubmatch queryTimePattern (duplicates ! 5) =
      Some [''# Query_time: 2  Lock_time: 0  Rows_sent: 7  Rows_examined: 9'', ''2'', ''0'', ''7'', ''9'']"
    and abs_t: "absent queryTimePattern (drop 6 duplicates)"
    and md: "FindStringSubmatch databasePattern (duplicates ! 6) = Some [''# Schema: billing'', ''billing'']"
    and abs_d: "absent databasePattern (drop 7 duplicates)"
    and ms: "FindStringSubmatch sqlQueryEndPattern (duplicates ! 7) \<noteq> None"
    and abs_s: "absent sqlQueryEndPattern (drop 8 duplicates)"
    by code_simp+
  have num: "fst (ParseFloat ''2'') = Finite 2" "fst (ParseFloat ''0'') = Finite 0"
    "fst (Atoi ''7'') = 7" "fst (Atoi ''9'') = 9"
    by code_simp+
  obtain q where q: "processSlowQuery_parse duplicates = Inr q"
    and u: "user q = ''batch''" "host q = ''10.0.0.9''"
    using last_match_wins [of "take 4 duplicates" "duplicates ! 4" "drop 5 duplicates"] mu abs_u
    unfolding split_u by auto
  have t: "queryTime q = Finite 2" "lockTime q = Finite 0" "rowsSent q = 7" "rowsExamined q = 9"
    using last_match_wins [of "take 5 duplicates" "duplicates ! 5" "drop 6 duplicates"] mt abs_t q num
    unfolding split_t by auto
  have d: "database q = ''billing''"
    using last_match_wins [of "take 6 duplicates" "duplicates ! 6" "drop 7 duplicates"] md abs_d q
    unfolding split_d by auto
  have s: "sqlQuery q = ''select 1;''"
    using last_match_wins [of "take 7 duplicates" "duplicates ! 7" "drop 8 duplicates"] ms abs_s q
    unfolding split_s by (auto simp: duplicates_def)
  from q u t d s show ?thesis by simp
qed

section \<open>Missing and malformed fields\<close>

text \<open>
  \<open>last_hit\<close> is what its name says: it is \<open>None\<close> exactly when no line matches, and a
  line with its submatches exactly when the line matches and no later line does.
\<close>

lemma last_hit_None: "last_hit r ls = None \<longleftrightarrow> absent r ls"
  by (induction ls) (auto simp: absent_def split: option.splits)

lemma last_hit_Some:
  "last_hit r ls = Some (l, ms) \<longleftrightarrow>
     (\<exists>before after. ls = before @ l # after \<and> FindStringSubmatch r l = Some ms \<and>
        absent r after)"
proof (induction ls)
  case Nil
  then show ?case by simp
next
  case (Cons x xs)
  show ?case
  proof (cases "last_hit r xs")
    case None
    then have a: "absent r xs"
      by (simp add: last_hit_None)
    show ?thesis
    proof
      assume "last_hit r (x # xs) = Some (l, ms)"
      with None have "x = l" "FindStringSubmatch r l = Some ms"
        by auto
      with a show "\<exists>before after. x # xs = before @ l # after \<and>
          FindStringSubmatch r l = Some ms \<and> absent r after"
        by (intro exI [of _ "[]"] exI [of _ xs]) simp
    next
      assume "\<exists>before after. x # xs = before @ l # after \<and>
          FindStringSubmatch r l = Some ms \<and> absent r after"
      then obtain before after where s: "x # xs = before @ l # after"
        and m: "FindStringSubmatch r l = Some ms" and "absent r after"
        by blast
      have "before = []"
      proof (cases before)
        case Nil
        then show ?thesis .
      next
        case (Cons y ys)
        with s have "xs = ys @ l # after"
          by simp
        with a m show ?thesis
          by (simp add: absent_def)
      qed
      with s m None show "last_hit r (x # xs) = Some (l, ms)"
        by simp
    qed
  next
    case (Some h)
    then have n: "\<not> absent r xs"
      using last_hit_None [of r xs] by simp
    show ?thesis
    proof
      assume "last_hit r (x # xs) = Some (l, ms)"
      with Some have "last_hit r xs = Some (l, ms)"
        by simp
      with Cons.IH obtain before after where "xs = before @ l # after"
        "FindStringSubmatch r l = Some ms" "absent r after"
        by blast
      then show "\<exists>before after. x # xs = before @ l # after \<and>
          FindStringSubmatch r l = Some ms \<and> absent r after"
        by (intro exI [of _ "x # before"] exI [of _ after]) simp
    next
      assume "\<exists>before after. x # xs = before @ l # after \<and>
          FindStringSubmatch r l = Some ms \<and> absent r after"
      then obtain before after where s: "x # xs = before @ l # after"
        and m: "FindStringSubmatch r l = Some ms" and a: "absent r after"
        by blast
      have "before \<noteq> []"
      proof
        assume "before = []"
        with s a have "absent r xs"
          by simp
        with n show False ..
      qed
      then obtain ys where "before = x # ys" "xs = ys @ l # after"
        using s by (cases before) auto
      with m a Cons.IH have "last_hit r xs = Some (l, ms)"
        by blast
      then show "last_hit r (x # xs) = Some (l, ms)"
        by simp
    qed
  qed
qed

lemma timing_last_hit:
  "queryTime (foldl scan_line_total q ls) =
     (case last_hit queryTimePattern ls of
        None \<Rightarrow> queryTime q | Some (l, ms) \<Rightarrow> fst (ParseFloat (ms ! 1)))"
  "lockTime (foldl scan_line_total q ls) =
     (case last_hit queryTimePattern ls of
        None \<Rightarrow> lockTime q | Some (l, ms) \<Rightarrow> fst (ParseFloat (ms ! 2)))"
  "rowsSent (foldl scan_line_total q ls) =
     (case last_hit queryTimePattern ls of
        None \<Rightarrow> rowsSent q | Some (l, ms) \<Rightarrow> fst (Atoi (ms ! 3)))"
  "rowsExamined (foldl scan_line_total q ls) =
     (case last_hit queryTimePattern ls of
        None \<Rightarrow> rowsExamined q | Some (l, ms) \<Rightarrow> fst (Atoi (ms ! 4)))"
  by (induction ls arbitrary: q; simp add: timing_scan_line split: option.splits)+

lemma userHost_last_hit:
  "user (foldl scan_line_total q ls) =
     (case last_hit userHostPattern ls of None \<Rightarrow> user q | Some (l, ms) \<Rightarrow> ms ! 1)"
  "host (foldl scan_line_total q ls) =
     (case last_hit userHostPattern ls of None \<Rightarrow> host q | Some (l, ms) \<Rightarrow> ms ! 2)"
  by (induction ls arbitrary: q; simp add: userHost_scan_line split: option.splits)+

lemma database_last_hit:
  "database (foldl scan_line_total q ls) =
     (case last_hit databasePattern ls of None \<Rightarrow> database q | Some (l, ms) \<Rightarrow> ms ! 1)"
  by (induction ls arbitrary: q; simp add: database_scan_line split: option.splits)

lemma sqlQuery_last_hit:
  "sqlQuery (foldl scan_line_total q ls) =
     (case last_hit sqlQueryEndPattern ls of None \<Rightarrow> sqlQuery q | Some (l, ms) \<Rightarrow> l)"
  by (induction ls arbitrary: q; simp add: sqlQuery_scan_line split: option.splits)

text \<open>
  Claim C7, as amended. For every list of lines \<^verbatim>\<open>processSlowQuery\<close> finishes its loop
  and returns its variables: no index is out of range and the errors of strconv are
  discarded. Extraction goes by line, not by field. For each of the four patterns, if
  no line matches the whole pattern (the line is missing, or a part of it is missing or
  malformed), all the variables of that pattern keep their zero values, \<open>0\<close> or the
  empty string; otherwise they hold the values of the last line that matches the
  pattern: the conversions of its four submatches for the timing pattern, its two
  submatches for the user and host, its submatch for the database, the line itself for
  the statement. The lines of the other patterns have no influence.
\<close>

theorem fields_by_line:
  "processSlowQuery_parse ls =
     Inr \<lparr>queryTime =
            (case last_hit queryTimePattern ls of
               None \<Rightarrow> Finite 0 | Some (l, ms) \<Rightarrow> fst (ParseFloat (ms ! 1))),
          lockTime =
            (case last_hit queryTimePattern ls of
               None \<Rightarrow> Finite 0 | Some (l, ms) \<Rightarrow> fst (ParseFloat (ms ! 2))),
          rowsSent =
            (case last_hit queryTimePattern ls of
               None \<Rightarrow> 0 | Some (l, ms) \<Rightarrow> fst (Atoi (ms ! 3))),
          rowsExamined =
            (case last_hit queryTimePattern ls of
               None \<Rightarrow> 0 | Some (l, ms) \<Rightarrow> fst (Atoi (ms ! 4))),
          database =
            (case last_hit databasePattern ls of None \<Rightarrow> [] | Some (l, ms) \<Rightarrow> ms ! 1),
          user =
            (case last_hit userHostPattern ls of None \<Rightarrow> [] | Some (l, ms) \<Rightarrow> ms ! 1),
          host =
            (case last_hit userHostPattern ls of None \<Rightarrow> [] | Some (l, ms) \<Rightarrow> ms ! 2),
          sqlQuery =
            (case last_hit sqlQueryEndPattern ls of None \<Rightarrow> [] | Some (l, ms) \<Rightarrow> l)\<rparr>"
proof -
  define q where "q = foldl scan_line_total zero_values ls"
  have "processSlowQuery_parse ls = Inr q"
    by (simp add: parse_total q_def)
  moreover have "q =
     \<lparr>queryTime =
            (case last_hit queryTimePattern ls of
               None \<Rightarrow> Finite 0 | Some (l, ms) \<Rightarrow> fst (ParseFloat (ms ! 1))),
          lockTime =
            (case last_hit queryTimePattern ls of
               None \<Rightarrow> Finite 0 | Some (l, ms) \<Rightarrow> fst (ParseFloat (ms ! 2))),
          rowsSent =
            (case last_hit queryTimePattern ls of
               None \<Rightarrow> 0 | Some (l, ms) \<Rightarrow> fst (Atoi (ms ! 3))),
          rowsExamined =
            (case last_hit queryTimePattern ls of
               None \<Rightarrow> 0 | Some (l, ms) \<Rightarrow> fst (Atoi (ms ! 4))),
          database =
            (case last_hit databasePattern ls of None \<Rightarrow> [] | Some (l, ms) \<Rightarrow> ms ! 1),
          user =
            (case last_hit userHostPattern ls of None \<Rightarrow> [] | Some (l, ms) \<Rightarrow> ms ! 1),
          host =
            (case last_hit userHostPattern ls of None \<Rightarrow> [] | Some (l, ms) \<Rightarrow> ms ! 2),
          sqlQuery =
            (case last_hit sqlQueryEndPattern ls of None \<Rightarrow> [] | Some (l, ms) \<Rightarrow> l)\<rparr>"
    by (rule slow_query.equality)
      (simp_all add: q_def timing_last_hit userHost_last_hit database_last_hit
        sqlQuery_last_hit zero_values_def split: option.splits)
  ultimately show ?thesis
    by simp
qed

text \<open>
  Claim C7 as stated fails. One pattern reads the four numbers of the timing line, so
  a timing line without \<^verbatim>\<open>Rows_examined\<close> matches nothing: the query time, the lock
  time and the rows sent, which the line gives, are not extracted and stay \<open>0\<close>.
\<close>

theorem timing_line_all_or_nothing:
  "processSlowQuery_parse truncated_timing =
     Inr \<lparr>queryTime = Finite 0, lockTime = Finite 0, rowsSent = 0, rowsExamined = 0,
          database = ''orders'', user = ''app'', host = ''10.0.0.5'',
          sqlQuery = ''SELECT * FROM orders;''\<rparr>"
  by code_simp

text \<open>
  An entry with no \<^verbatim>\<open># Schema:\<close> line has the empty database, and its other variables
  come from their lines.
\<close>

theorem fields_by_line_witness:
  "processSlowQuery_parse no_schema =
     Inr \<lparr>queryTime = Finite (3 / 2),
          lockTime = Finite (3602879701896397 / 36028797018963968),
          rowsSent = 3, rowsExamined = 500, database = [],
          user = ''app'', host = ''10.0.0.5'', sqlQuery = ''SELECT * FROM orders;''\<rparr>"
proof -
  have t: "last_hit queryTimePattern no_schema =
      Some (''# Query_time: 1.5  Lock_time: 0.1  Rows_sent: 3  Rows_examined: 500'',
        [''# Query_time: 1.5  Lock_time: 0.1  Rows_sent: 3  Rows_examined: 500'',
         ''1.5'', ''0.1'', ''3'', ''500''])"
    and u: "last_hit userHostPattern no_schema =
      Some (''# User@Host: app[app] @ 10.0.0.5'',
        [''# User@Host: app[app] @ 10.0.0.5'', ''app'', ''10.0.0.5''])"
    and d: "last_hit databasePattern no_schema = None"
    and s: "map_option fst (last_hit sqlQueryEndPattern no_schema) = Some ''SELECT * FROM orders;''"
    by code_simp+
  have n: "fst (ParseFloat ''1.5'') = Finite (3 / 2)"
    "fst (ParseFloat ''0.1'') = Finite (3602879701896397 / 36028797018963968)"
    "fst (Atoi ''3'') = 3" "fst (Atoi ''500'') = 500"
    by code_simp+
  from s obtain ms where s': "last_hit sqlQueryEndPattern no_schema = Some (''SELECT * FROM orders;'', ms)"
    by (cases "last_hit sqlQueryEndPattern no_schema") auto
  show ?thesis
    using fields_by_line [of no_schema] by (simp add: t u d s' n)
qed

section \<open>The scenario\<close>

text \<open>
  Claim C2. The parser on the five lines of the scenario returns the query time 1.5,
  the lock time 0.1 (the \<^verbatim>\<open>float64\<close> nearest to one tenth, which prints as 0.10), 3
  rows sent, 500 rows examined, the database orders, the user app, the host 10.0.0.5
  and the statement as SQL text.
\<close>

theorem parse_scenario:
  "processSlowQuery_parse scenario =
     Inr \<lparr>queryTime = Finite (3 / 2),
          lockTime = Finite (3602879701896397 / 36028797018963968),
          rowsSent = 3, rowsExamined = 500, database = ''orders'',
          user = ''app'', host = ''10.0.0.5'', sqlQuery = ''SELECT * FROM orders;''\<rparr> \<and>
   ParseFloat ''1.5'' = (Finite (3 / 2), False) \<and>
   ParseFloat ''0.1'' = (Finite (3602879701896397 / 36028797018963968), False) \<and>
   fmt_f2 (Finite (3602879701896397 / 36028797018963968)) = ''0.10''"
  by code_simp

section \<open>The threshold\<close>

lemma feq_fge: "feq a b \<Longrightarrow> fge a b"
  by (cases a; cases b) simp_all

lemma flt_not_fge: "flt a b \<Longrightarrow> \<not> fge a b"
  by (cases a; cases b) simp_all

lemma processSlowQuery_total:
  "processSlowQuery cfg ls = Inr (notify cfg (foldl scan_line_total zero_values ls))"
  by (simp add: processSlowQuery_def parse_total and_then_Inr)

text \<open>
  Claim C6. For every list of lines and every configuration: when the parsed query time
  is equal to the threshold, \<^verbatim>\<open>processSlowQuery\<close> sends one notification, built from
  the parsed variables; when it is less than the threshold, it sends none.
\<close>

theorem threshold_boundary:
  "\<exists>q. processSlowQuery_parse ls = Inr q \<and>
     (feq (queryTime q) (slowQueryThreshold cfg) \<longrightarrow>
        processSlowQuery cfg ls = Inr (sendWebhookNotification cfg (notificationContent q)) \<and>
        length (sendWebhookNotification cfg (notificationContent q)) = 1) \<and>
     (flt (queryTime q) (slowQueryThreshold cfg) \<longrightarrow> processSlowQuery cfg ls = Inr [])"
proof -
  define q where "q = foldl scan_line_total zero_values ls"
  have "processSlowQuery_parse ls = Inr q"
    by (simp add: parse_total q_def)
  moreover have "processSlowQuery cfg ls = Inr (sendWebhookNotification cfg (notificationContent q))"
    if "feq (queryTime q) (slowQueryThreshold cfg)"
    using feq_fge [OF that] by (simp add: processSlowQuery_total notify_def q_def)
  moreover have "length (sendWebhookNotification cfg (notificationContent q)) = 1"
    by (simp add: sendWebhookNotification_def)
  moreover have "processSlowQuery cfg ls = Inr []"
    if "flt (queryTime q) (slowQueryThreshold cfg)"
    using flt_not_fge [OF that] by (simp add: processSlowQuery_total notify_def q_def)
  ultimately show ?thesis by blast
qed

text \<open>
  The scenario, whose query time is 1.5, with the threshold 1.5 and with the threshold 2.
\<close>

theorem threshold_boundary_witness:
  "feq (Finite (3 / 2)) (slowQueryThreshold (scenario_config (Finite (3 / 2)))) \<and>
   map_sum id length (processSlowQuery (scenario_config (Finite (3 / 2))) scenario) = Inr 1 \<and>
   flt (Finite (3 / 2)) (slowQueryThreshold (scenario_config (Finite 2))) \<and>
   processSlowQuery (scenario_config (Finite 2)) scenario = Inr []"
proof -
  have q: "processSlowQuery_parse scenario = Inr scenario_query"
    unfolding scenario_query_def by code_simp
  have e: "feq (Finite (3 / 2)) (slowQueryThreshold (scenario_config (Finite (3 / 2))))"
    and l: "flt (Finite (3 / 2)) (slowQueryThreshold (scenario_config (Finite 2)))"
    by (simp_all add: scenario_config_def)
  have "map_sum id length (processSlowQuery (scenario_config (Finite (3 / 2))) scenario) = Inr 1"
    using threshold_boundary [of scenario "scenario_config (Finite (3 / 2))"] q e
    by (auto simp: scenario_query_def)
  moreover have "processSlowQuery (scenario_config (Finite 2)) scenario = Inr []"
    using threshold_boundary [of scenario "scenario_config (Finite 2)"] q l
    by (auto simp: scenario_query_def)
  ultimately show ?thesis using e l by simp
qed

text \<open>
  Claim C4, as amended. \<^verbatim>\<open>processSlowQuery\<close> compares the query time with the
  threshold for every list of lines. When no line matches the timing pattern the query
  time is still its zero value, and a notification is sent exactly when \<open>0\<close> is greater
  than or equal to the threshold: never with a positive threshold.
\<close>

theorem threshold_without_timing:
  "absent queryTimePattern ls \<Longrightarrow>
     \<exists>q. processSlowQuery_parse ls = Inr q \<and> queryTime q = Finite 0 \<and>
       processSlowQuery cfg ls =
         Inr (if fge (Finite 0) (slowQueryThreshold cfg)
              then sendWebhookNotification cfg (notificationContent q) else [])"
  using timing_absent [of ls zero_values]
  by (simp add: parse_total processSlowQuery_total notify_def zero_values_def)

text \<open>
  Claim C4 as stated fails: with the threshold \<open>0\<close> an entry without a timing line
  reaches the comparison and is notified.
\<close>

theorem notification_without_timing:
  "absent queryTimePattern time_only \<and>
   map_sum id length (processSlowQuery (scenario_config (Finite 0)) time_only) = Inr 1"
  by code_simp

text \<open>The same entry with the default threshold of half a second: no notification.\<close>

theorem threshold_without_timing_witness:
  "absent queryTimePattern time_only \<and>
   processSlowQuery (scenario_config (Finite (1 / 2))) time_only = Inr []"
proof -
  have a: "absent queryTimePattern time_only"
    by code_simp
  have "\<not> fge (Finite 0) (slowQueryThreshold (scenario_config (Finite (1 / 2))))"
    by (simp add: scenario_config_def)
  with threshold_without_timing [OF a, of "scenario_config (Finite (1 / 2))"] a
  show ?thesis by auto
qed

section \<open>The tailing loop\<close>

lemma calls_scenario:
  "tailSlowLog_calls scenario =
     [take 1 scenario, take 2 scenario, take 3 scenario, take 4 scenario, scenario]"
  by code_simp

lemma notify_scenario_prefixes:
  "map_sum id length (processSlowQuery (scenario_config (Finite (1 / 2))) (take 1 scenario)) = Inr 0"
  "map_sum id length (processSlowQuery (scenario_config (Finite (1 / 2))) (take 2 scenario)) = Inr 0"
  "map_sum id length (processSlowQuery (scenario_config (Finite (1 / 2))) (take 3 scenario)) = Inr 1"
  "map_sum id length (processSlowQuery (scenario_config (Finite (1 / 2))) (take 4 scenario)) = Inr 1"
  "map_sum id length (processSlowQuery (scenario_config (Finite (1 / 2))) scenario) = Inr 1"
  by code_simp+

lemma run_calls_length:
  "map_sum id length (processSlowQuery cfg c) = Inr n \<Longrightarrow>
     length (fst (run_calls cfg (c # cs))) = n + length (fst (run_calls cfg cs)) \<and>
     snd (run_calls cfg (c # cs)) = snd (run_calls cfg cs)"
  by (cases "processSlowQuery cfg c") (auto simp: split_beta)

text \<open>
  Claim C1 does not hold of \<^verbatim>\<open>tailSlowLog\<close>. The statement under the comment about the
  rest of the log at the end of the file stands inside the loop, so every line that
  leaves \<^verbatim>\<open>logLines\<close> non-empty makes the loop process the lines gathered so far. On
  the scenario with the threshold 0.5 \<^verbatim>\<open>processSlowQuery\<close> is called five times, on the
  first one, two, three, four and five lines, and the last three calls send a
  notification each: three notifications for one entry.
\<close>

theorem scenario_notified_three_times:
  "tailSlowLog_calls scenario =
     [take 1 scenario, take 2 scenario, take 3 scenario, take 4 scenario, scenario] \<and>
   map (\<lambda>c. map_sum id length (processSlowQuery (scenario_config (Finite (1 / 2))) c))
     (tailSlowLog_calls scenario) = [Inr 0, Inr 0, Inr 1, Inr 1, Inr 1] \<and>
   length (sent (tailSlowLog (scenario_config (Finite (1 / 2))) (Some scenario))) = 3 \<and>
   panicked (tailSlowLog (scenario_config (Finite (1 / 2))) (Some scenario)) = None"
  using notify_scenario_prefixes
  by (simp add: calls_scenario tailSlowLog_def split_beta run_calls_length del: run_calls.simps(2))

lemma tail_step_nonempty:
  "list_all (\<lambda>c. c \<noteq> []) (snd (tail_step logLines line))"
  by (simp add: tail_step_def Let_def)

lemma tail_loop_nonempty:
  "list_all (\<lambda>c. c \<noteq> []) (snd (tail_loop logLines lines))"
proof (induction lines arbitrary: logLines)
  case Nil
  then show ?case by simp
next
  case (Cons line rest)
  show ?case
    using tail_step_nonempty [of logLines line] Cons.IH [of "fst (tail_step logLines line)"]
    by (simp add: split_beta Let_def)
qed

text \<open>
  Claim C10. Every call of \<^verbatim>\<open>processSlowQuery\<close> that the loop of \<^verbatim>\<open>tailSlowLog\<close> makes,
  on any lines, passes at least one line.
\<close>

theorem calls_nonempty:
  "\<forall>c \<in> set (tailSlowLog_calls lines). c \<noteq> []"
  using tail_loop_nonempty [of "[]" lines]
  by (simp add: tailSlowLog_calls_def list_all_iff)

text \<open>The scenario makes calls, and none of them is empty.\<close>

theorem calls_nonempty_witness:
  "tailSlowLog_calls scenario \<noteq> [] \<and> list_all (\<lambda>c. c \<noteq> []) (tailSlowLog_calls scenario)"
proof -
  have "tailSlowLog_calls scenario \<noteq> []"
    by (simp add: calls_scenario)
  with calls_nonempty [of scenario] show ?thesis
    by (simp add: list_all_iff)
qed

text \<open>
  The relations of the loop are functional: the conditions of the rules of each
  statement exclude one another, so the line read and the value of \<^verbatim>\<open>logLines\<close>
  before a statement decide the value after it and the calls made.
\<close>

lemma start_marker_determ:
  "start_marker logLines text l c \<Longrightarrow> start_marker logLines text l' c' \<Longrightarrow> l = l' \<and> c = c'"
  by (auto elim!: start_marker.cases)

lemma end_marker_determ:
  "end_marker logLines text l c \<Longrightarrow> end_marker logLines text l' c' \<Longrightarrow> l = l' \<and> c = c'"
  by (auto elim!: end_marker.cases)

lemma flush_determ: "flush logLines c \<Longrightarrow> flush logLines c' \<Longrightarrow> c = c'"
  by (auto elim!: flush.cases)

lemma iteration_determ:
  assumes a: "iteration logLines text l c" and b: "iteration logLines text l' c'"
  shows "l = l' \<and> c = c'"
proof (cases "text = []")
  case True
  with a b show ?thesis
    by (auto elim: iteration.cases)
next
  case False
  with a obtain l1 c1 c2 c3 where a': "start_marker logLines text l1 c1" "end_marker l1 text l c2"
    "flush l c3" "c = c1 @ c2 @ c3"
    by (auto elim: iteration.cases)
  from False b obtain m1 d1 d2 d3 where b': "start_marker logLines text m1 d1"
    "end_marker m1 text l' d2" "flush l' d3" "c' = d1 @ d2 @ d3"
    by (auto elim: iteration.cases)
  from start_marker_determ [OF a'(1) b'(1)] have s: "l1 = m1" "c1 = d1"
    by simp_all
  from end_marker_determ [OF a'(2) b'(2) [folded s(1)]] have e: "l = l'" "c2 = d2"
    by simp_all
  from flush_determ [OF a'(3) b'(3) [folded e(1)]] have "c3 = d3" .
  with s e a'(4) b'(4) show ?thesis
    by simp
qed

lemma range_Lines_determ:
  "range_Lines logLines lines l c \<Longrightarrow> range_Lines logLines lines l' c' \<Longrightarrow> l = l' \<and> c = c'"
proof (induction arbitrary: l' c' rule: range_Lines.induct)
  case (range_done logLines)
  then show ?case
    by (auto elim: range_Lines.cases)
next
  case (range_next logLines line l cs rest l2 cs2)
  from range_next.prems obtain m ds ds' where i: "iteration logLines line m ds"
    and r: "range_Lines m rest l' ds'" and c: "c' = ds @ ds'"
    by (auto elim: range_Lines.cases)
  from iteration_determ [OF range_next.hyps(1) i] have "l = m" "cs = ds"
    by simp_all
  with range_next.IH [of l' ds'] r c show ?case
    by simp
qed

text \<open>The relations hold of what the functions of the loop compute, and of nothing else.\<close>

lemma iteration_tail_step: "iteration logLines text l cs \<longleftrightarrow> tail_step logLines text = (l, cs)"
proof
  assume "iteration logLines text l cs"
  then show "tail_step logLines text = (l, cs)"
    by (auto simp: tail_step_def elim!: iteration.cases start_marker.cases end_marker.cases
        flush.cases)
next
  assume t: "tail_step logLines text = (l, cs)"
  show "iteration logLines text l cs"
  proof (cases "text = []")
    case True
    with t show ?thesis
      by (auto simp: tail_step_def intro: iteration_blank)
  next
    case False
    define l1 where "l1 = (if MatchString queryStartPattern text then [text] else logLines @ [text])"
    define c1 where "c1 = (if MatchString queryStartPattern text \<and> 0 < length logLines
      then [logLines] else [])"
    define l2 where "l2 = (if MatchString sqlQueryEndPattern text then [] else l1)"
    define c2 where "c2 = (if MatchString sqlQueryEndPattern text then [l1] else [])"
    define c3 where "c3 = (if 0 < length l2 then [l2] else [])"
    have "start_marker logLines text l1 c1"
      unfolding l1_def c1_def by (auto intro: start_marker.intros)
    moreover have "end_marker l1 text l2 c2"
      unfolding l2_def c2_def by (auto intro: end_marker.intros)
    moreover have "flush l2 c3"
      unfolding c3_def by (auto intro: flush.intros)
    ultimately have "iteration logLines text l2 (c1 @ c2 @ c3)"
      using False by (rule iteration_line [rotated])
    moreover from t False have "l = l2" "cs = c1 @ c2 @ c3"
      by (auto simp: tail_step_def l1_def c1_def l2_def c2_def c3_def split: if_splits)
    ultimately show ?thesis
      by simp
  qed
qed

lemma range_Lines_tail_loop:
  "range_Lines logLines lines l cs \<longleftrightarrow> tail_loop logLines lines = (l, cs)"
proof (induction lines arbitrary: logLines l cs)
  case Nil
  show ?case
    by (auto intro: range_done elim: range_Lines.cases)
next
  case (Cons line rest)
  show ?case
  proof
    assume "range_Lines logLines (line # rest) l cs"
    then obtain m ds ds' where "iteration logLines line m ds" "range_Lines m rest l ds'"
      "cs = ds @ ds'"
      by (auto elim: range_Lines.cases)
    with Cons.IH [of m l ds'] show "tail_loop logLines (line # rest) = (l, cs)"
      by (simp add: iteration_tail_step)
  next
    assume t: "tail_loop logLines (line # rest) = (l, cs)"
    obtain m ds where s: "tail_step logLines line = (m, ds)"
      by (cases "tail_step logLines line")
    obtain l' ds' where r: "tail_loop m rest = (l', ds')"
      by (cases "tail_loop m rest")
    from t s r have "l = l'" "cs = ds @ ds'"
      by simp_all
    moreover from s have "iteration logLines line m ds"
      by (simp add: iteration_tail_step)
    moreover from r Cons.IH [of m l' ds'] have "range_Lines m rest l' ds'"
      by simp
    ultimately show "range_Lines logLines (line # rest) l cs"
      by (auto intro: range_next)
  qed
qed

lemma tailSlowLog_run_calls: "tailSlowLog_run lines cs \<longleftrightarrow> cs = tailSlowLog_calls lines"
proof
  assume "tailSlowLog_run lines cs"
  then show "cs = tailSlowLog_calls lines"
    by (auto simp: tailSlowLog_calls_def range_Lines_tail_loop elim: tailSlowLog_run.cases)
next
  assume "cs = tailSlowLog_calls lines"
  then have "range_Lines [] lines (fst (tail_loop [] lines)) cs"
    by (simp add: range_Lines_tail_loop tailSlowLog_calls_def)
  then show "tailSlowLog_run lines cs"
    by (rule run_loop)
qed

lemma tailSlowLog_run_determ:
  assumes "tailSlowLog_run lines cs" and "tailSlowLog_run lines cs'"
  shows "cs = cs'"
proof -
  from assms(1) obtain l where a: "range_Lines [] lines l cs"
    by (auto elim: tailSlowLog_run.cases)
  from assms(2) obtain l' where b: "range_Lines [] lines l' cs'"
    by (auto elim: tailSlowLog_run.cases)
  from range_Lines_determ [OF a b] show ?thesis
    by simp
qed

text \<open>
  Claim C9. For every finite list of lines a run of \<^verbatim>\<open>tailSlowLog\<close> that is delivered
  these lines makes its calls of \<^verbatim>\<open>processSlowQuery\<close>, and any other run that is
  delivered the same lines, starting like every run from \<^verbatim>\<open>var logLines []string\<close>,
  makes the same calls in the same order, on which the parser returns the same
  variables.
\<close>

theorem segmentation_deterministic:
  "\<exists>calls. tailSlowLog_run lines calls \<and>
     (\<forall>calls'. tailSlowLog_run lines calls' \<longrightarrow>
        calls' = calls \<and>
        map processSlowQuery_parse calls' = map processSlowQuery_parse calls)"
proof (intro exI conjI allI impI)
  show r: "tailSlowLog_run lines (tailSlowLog_calls lines)"
    by (simp add: tailSlowLog_run_calls)
  fix calls'
  assume "tailSlowLog_run lines calls'"
  then show c: "calls' = tailSlowLog_calls lines"
    using r by (rule tailSlowLog_run_determ)
  then show "map processSlowQuery_parse calls' =
      map processSlowQuery_parse (tailSlowLog_calls lines)"
    by simp
qed

text \<open>The runs on the scenario: all of them make the five calls found above.\<close>

theorem segmentation_deterministic_witness:
  "tailSlowLog_run scenario
     [take 1 scenario, take 2 scenario, take 3 scenario, take 4 scenario, scenario] \<and>
   {calls. tailSlowLog_run scenario calls} =
     {[take 1 scenario, take 2 scenario, take 3 scenario, take 4 scenario, scenario]}"
proof -
  define five where
    "five = [take 1 scenario, take 2 scenario, take 3 scenario, take 4 scenario, scenario]"
  have "tailSlowLog_calls scenario = five"
    unfolding five_def by (rule calls_scenario)
  then have r: "tailSlowLog_run scenario five"
    by (simp only: tailSlowLog_run_calls)
  from segmentation_deterministic [of scenario] obtain calls
    where u: "\<And>calls'. tailSlowLog_run scenario calls' \<Longrightarrow> calls' = calls"
    by blast
  from u [OF r] have f: "five = calls" .
  have "{calls. tailSlowLog_run scenario calls} = {five}"
  proof (rule set_eqI)
    fix x
    show "x \<in> {calls. tailSlowLog_run scenario calls} \<longleftrightarrow> x \<in> {five}"
      using u [of x] r f by blast
  qed
  with r show ?thesis
    unfolding five_def by (rule conjI)
qed

text \<open>
  The calls do not depend on how the lines arrive: lines delivered in two batches give
  the calls of the first batch followed by those of the second.
\<close>

lemma tail_loop_append:
  "tail_loop logLines (xs @ ys) =
     (fst (tail_loop (fst (tail_loop logLines xs)) ys),
      snd (tail_loop logLines xs) @ snd (tail_loop (fst (tail_loop logLines xs)) ys))"
  by (induction xs arbitrary: logLines) (simp_all add: split_beta)

text \<open>
  The fresh start matters: a run that went on with the lines left by the run before
  would make other calls.
\<close>

lemma reset_needed:
  "snd (tail_loop (fst (tail_loop [] [''# Schema: orders''])) [''# Schema: orders'']) \<noteq>
   snd (tail_loop [] [''# Schema: orders''])"
  by code_simp

section \<open>The test flag\<close>

text \<open>
  Claim C5 does not hold of \<^verbatim>\<open>main.go\<close>: its \<^verbatim>\<open>main\<close> declares the flag \<^verbatim>\<open>--test\<close> and
  never reads \<^verbatim>\<open>isTest\<close>, and the file has no \<^verbatim>\<open>sendTestWebhook\<close>. With the flag set and
  a webhook URL given, \<^verbatim>\<open>main\<close> sends nothing of its own and goes on to the loop that
  starts \<^verbatim>\<open>tailSlowLog\<close>.
\<close>

theorem test_flag_ignored:
  "main ((scenario_config (Finite (1 / 2)))\<lparr>isTest := True\<rparr>) = ([], SuperviseTailSlowLog)"
  by (simp add: main_def scenario_config_def)

text \<open>
  The other version does what the flag is documented to do: one request with the
  constant message, whatever the log file holds, and no tailing.
\<close>

lemma other_version_sends_test:
  "webhookURL cfg \<noteq> [] \<Longrightarrow> isTest cfg \<Longrightarrow>
     main_other_version cfg =
       ([\<lparr>http_method = ''POST'', url = webhookURL cfg,
          headers = [(''Content-Type'', ''application/json'')],
          body = payload testMessage\<rparr>], ReturnAfterTest)"
  by (simp add: main_other_version_def sendTestWebhook_def sendWebhookNotification_def)

lemma testMessage_is_json: "json_string_body testMessage"
  by code_simp

section \<open>The body of the request\<close>

lemma json_string_quote: "json_string (CHR 0x22 # rest) = Some ([], rest)"
  by (cases rest) simp_all

lemma json_plain_simps: "json_plain c \<Longrightarrow> c \<noteq> CHR 0x22 \<and> c \<noteq> CHR 0x5C"
  by (simp add: json_plain_def)

lemma json_string_body_closed:
  "json_string_body s \<Longrightarrow> json_string (s @ CHR 0x22 # rest) = Some (s, rest)"
proof (induction s rule: json_string_body.induct)
  case 1
  show ?case by (simp add: json_string_quote)
next
  case (2 c)
  then show ?case
    by (simp add: json_string_quote json_plain_simps)
next
  case (3 c e r)
  show ?case
  proof (cases "c = CHR 0x5C")
    case True
    note c = this
    show ?thesis
    proof (cases "json_escape e")
      case True
      with c 3 show ?thesis by simp
    next
      case False
      with c "3.prems" have u: "e = CHR ''u''" "4 \<le> length r" "list_all is_hex (take 4 r)"
        "json_string_body (drop 4 r)"
        by simp_all
      with c False "3.IH"(2) have "json_string (drop 4 r @ CHR 0x22 # rest) = Some (drop 4 r, rest)"
        by simp
      with c False u show ?thesis by simp
    qed
  next
    case False
    with 3 show ?thesis
      by (simp add: json_plain_simps)
  qed
qed

lemma json_content_payload:
  "json_string_body content \<Longrightarrow> json_content (payload content) = Some content"
  by (simp add: json_content_def payload_def expect_def skip_ws_def json_ws_def
      newline_def tab_def json_string_body_closed)

text \<open>
  Claim C8 does not hold of \<^verbatim>\<open>sendWebhookNotification\<close> as \<^verbatim>\<open>processSlowQuery\<close> calls
  it. The function sets the content type \<^verbatim>\<open>application/json\<close> and writes the JSON
  object as a format string, escaping the quotes of the template by hand, but puts the
  content in with \<^verbatim>\<open>%s\<close>; and \<^verbatim>\<open>processSlowQuery\<close> builds the content from the
  database, the user, the host and the statement as they stand in the log. For an
  entry whose statement contains double quotes one POST with the content type
  \<^verbatim>\<open>application/json\<close> is sent, and its body is not the JSON object of the
  specification: the first quote of the statement ends the string.
\<close>

theorem payload_not_json:
  "map_sum id (map (\<lambda>r. (http_method r, headers r, json_content (body r))))
     (processSlowQuery (scenario_config (Finite (1 / 2))) quoted) =
   Inr [(''POST'', [(''Content-Type'', ''application/json'')], None)]"
  by code_simp

text \<open>
  The template itself is right: for a content in which every quote and backslash is
  part of an escape and no control character occurs, the body is, with white space
  between its tokens, the JSON object of the specification with that content as the
  text of its string.
\<close>

lemma escaped_content_is_json:
  "json_string_body content \<Longrightarrow>
     \<exists>r. sendWebhookNotification cfg content = [r] \<and>
       http_method r = ''POST'' \<and> url r = webhookURL cfg \<and>
       headers r = [(''Content-Type'', ''application/json'')] \<and>
       json_content (body r) = Some content"
  by (simp add: sendWebhookNotification_def json_content_payload)

text \<open>The content rendered for the scenario is of that kind.\<close>

lemma scenario_content_is_json:
  "json_string_body (notificationContent scenario_query) \<and>
   map (json_content \<circ> body)
     (sendWebhookNotification (scenario_config (Finite (1 / 2))) (notificationContent scenario_query)) =
     [Some (notificationContent scenario_query)]"
proof -
  have b: "json_string_body (notificationContent scenario_query)"
    by code_simp
  from escaped_content_is_json [OF b, of "scenario_config (Finite (1 / 2))"] b
  show ?thesis by auto
qed

end
